theory Spec2Isabelle
  imports Complex_Main
begin

section \<open>Python values, faults and sequencing\<close>

text \<open>
  The engine of \<^verbatim>\<open>engine3D.py\<close> works on Python lists of floats. A list is a HOL list, a
  float is the \<^typ>\<open>real\<close> number it stands for, and the two faults the interpreter can
  raise in the code under study are values of \<open>error\<close>.
\<close>

datatype error = IndexError | ZeroDivisionError

type_synonym vec = "real list"

text \<open>\<^verbatim>\<open>xs[i]\<close>: an index from \<open>-len(xs)\<close> to \<open>-1\<close> counts from the end of the list.\<close>

definition getitem :: "'a list \<Rightarrow> int \<Rightarrow> error + 'a" where
  "getitem xs i =
     (if 0 \<le> i \<and> i < int (length xs) then Inr (xs ! nat i)
      else if i < 0 \<and> - int (length xs) \<le> i then Inr (xs ! nat (int (length xs) + i))
      else Inl IndexError)"

text \<open>Evaluation order: the first fault ends the evaluation of the expression.\<close>

definition then_do :: "error + 'a \<Rightarrow> ('a \<Rightarrow> error + 'b) \<Rightarrow> error + 'b" where
  "then_do m f = (case m of Inl err \<Rightarrow> Inl err | Inr v \<Rightarrow> f v)"

section \<open>Arithmetic of doubles\<close>

text \<open>
  A Python float is an IEEE 754 binary64 number: 53 bits of precision, exponents from
  \<open>-1022\<close> to \<open>1023\<close>, subnormal numbers below. The result of an operation is the exact
  result rounded to the nearest double, to the one with the even last bit when two are as
  near. \<open>bits n\<close> is the number of binary digits of \<open>n\<close>, \<open>ilog2 x\<close> the exponent \<open>e\<close> with
  \<open>2 ^ e \<le> x < 2 ^ (e + 1)\<close>, \<open>half_even\<close> the nearest integer, and \<open>rnd\<close> the rounding: the
  multiple of the unit in the last place of the binade of \<open>x\<close> nearest to \<open>x\<close>.

  The two zeros of the format are one number here: they are equal in Python, and both
  raise as divisors. Results beyond the largest double, which Python turns into an
  infinity without a fault, are not doubles for \<open>is_double\<close>, and nothing below is stated
  of a computation that leaves the range. A coordinate given as a Python int stands for
  the double of the same value.
\<close>

fun bits :: "nat \<Rightarrow> nat" where
  "bits n = (if n = 0 then 0 else Suc (bits (n div 2)))"

declare bits.simps [simp del]

definition ilog2 :: "real \<Rightarrow> int" where
  "ilog2 x =
     (if 1 \<le> x then int (bits (nat \<lfloor>x\<rfloor>)) - 1 else - int (bits (nat \<lceil>1 / x\<rceil> - 1)))"

definition pow2 :: "int \<Rightarrow> real" where
  "pow2 e = (if 0 \<le> e then 2 ^ nat e else 1 / 2 ^ nat (- e))"

definition half_even :: "real \<Rightarrow> int" where
  "half_even y =
     (if y - of_int \<lfloor>y\<rfloor> < 1 / 2 then \<lfloor>y\<rfloor>
      else if 1 / 2 < y - of_int \<lfloor>y\<rfloor> then \<lfloor>y\<rfloor> + 1
      else if even \<lfloor>y\<rfloor> then \<lfloor>y\<rfloor> else \<lfloor>y\<rfloor> + 1)"

definition rnd :: "real \<Rightarrow> real" where
  "rnd x =
     (if x = 0 then 0
      else pow2 (max (ilog2 \<bar>x\<bar>) (- 1022) - 52)
           * of_int (half_even (x / pow2 (max (ilog2 \<bar>x\<bar>) (- 1022) - 52))))"

definition is_double :: "real \<Rightarrow> bool" where
  "is_double x = (rnd x = x \<and> \<bar>x\<bar> < 2 ^ 1024)"

text \<open>\<^verbatim>\<open>a + b\<close>, \<^verbatim>\<open>a - b\<close>, \<^verbatim>\<open>a * b\<close> on floats.\<close>

definition fadd :: "real \<Rightarrow> real \<Rightarrow> real" where
  "fadd a b = rnd (a + b)"

definition fsub :: "real \<Rightarrow> real \<Rightarrow> real" where
  "fsub a b = rnd (a - b)"

definition fmul :: "real \<Rightarrow> real \<Rightarrow> real" where
  "fmul a b = rnd (a * b)"

text \<open>\<^verbatim>\<open>a / b\<close> on floats: a zero divisor raises.\<close>

definition truediv :: "real \<Rightarrow> real \<Rightarrow> error + real" where
  "truediv a b = (if b = 0 then Inl ZeroDivisionError else Inr (rnd (a / b)))"

section \<open>Shape\<close>

record shape =
  verts :: "vec list"
  edges :: "int list list"
  verts_proj :: "vec list"

definition Shape :: "vec list option \<Rightarrow> int list list option \<Rightarrow> shape" where
  "Shape vs es =
     \<lparr>verts = (case vs of None \<Rightarrow> [] | Some v \<Rightarrow> v),
      edges = (case es of None \<Rightarrow> [] | Some e \<Rightarrow> e),
      verts_proj = []\<rparr>"

text \<open>
  One axis of the body of the loop of \<^verbatim>\<open>Shape.window_projection\<close>; the source writes the
  block twice, for index \<open>0\<close> and for index \<open>1\<close>:
  \<^verbatim>\<open>
  if p[k] != obs[k]:
      a = (p[2] - obs[2]) / (p[k] - obs[k])
      p2[k] = (1/a) * (window_pos[2] - obs[2] + a * obs[k])
  else:
      p2[k] = p[k]
  \<close>
\<close>

definition axis_projection :: "vec \<Rightarrow> vec \<Rightarrow> vec \<Rightarrow> int \<Rightarrow> error + real" where
  "axis_projection p obs window_pos k =
     then_do (getitem p k) (\<lambda>pk.
     then_do (getitem obs k) (\<lambda>ok.
       if pk \<noteq> ok then
         then_do (getitem p 2) (\<lambda>pz.
         then_do (getitem obs 2) (\<lambda>oz.
         then_do (truediv (fsub pz oz) (fsub pk ok)) (\<lambda>a.
         then_do (truediv 1 a) (\<lambda>inv.
         then_do (getitem window_pos 2) (\<lambda>wz.
           Inr (fmul inv (fadd (fsub wz oz) (fmul a ok))))))))
       else Inr pk))"

definition project_vertex :: "vec \<Rightarrow> vec \<Rightarrow> vec \<Rightarrow> error + vec" where
  "project_vertex p obs window_pos =
     then_do (axis_projection p obs window_pos 0) (\<lambda>r0.
     then_do (axis_projection p obs window_pos 1) (\<lambda>r1.
       Inr [r0, r1]))"

text \<open>
  The loop over \<^verbatim>\<open>self.verts\<close>, appending to \<^verbatim>\<open>self.verts_proj\<close>. A fault leaves the
  points appended so far in the shape.
\<close>

fun project_verts :: "vec list \<Rightarrow> vec \<Rightarrow> vec \<Rightarrow> vec list \<Rightarrow> error option \<times> vec list" where
  "project_verts [] obs window_pos acc = (None, acc)"
| "project_verts (p # ps) obs window_pos acc =
     (case project_vertex p obs window_pos of
        Inl err \<Rightarrow> (Some err, acc)
      | Inr p2 \<Rightarrow> project_verts ps obs window_pos (acc @ [p2]))"

definition window_projection :: "shape \<Rightarrow> vec \<Rightarrow> vec \<Rightarrow> error option \<times> shape" where
  "window_projection s obs window_pos =
     (case project_verts (verts s) obs window_pos [] of
        (r, vp) \<Rightarrow> (r, s\<lparr>verts_proj := vp\<rparr>))"

section \<open>Square\<close>

definition unit_verts :: "vec list" where
  "unit_verts =
     [[-1, -1, -1], [1, -1, -1], [1, 1, -1], [-1, 1, -1],
      [-1, -1, 1], [1, -1, 1], [1, 1, 1], [-1, 1, 1]]"

definition cube_edges :: "int list list" where
  "cube_edges =
     [[0, 1], [1, 2], [2, 3], [3, 0], [4, 5], [5, 6], [6, 7], [7, 4],
      [0, 4], [1, 5], [2, 6], [3, 7]]"

text \<open>
  The body of the loop of \<^verbatim>\<open>Square.__init__\<close> for one vertex \<^verbatim>\<open>v[i]\<close>. The coordinates of
  a corner, and the pixels of \<^verbatim>\<open>draw\<close> below, are written with the operations of the reals:
  what is stated of them is that the stored value is this expression of the arguments.
\<close>

definition place_vertex :: "vec \<Rightarrow> real \<Rightarrow> vec \<Rightarrow> error + vec" where
  "place_vertex v sz pos =
     then_do (getitem v 0) (\<lambda>v0. then_do (getitem pos 0) (\<lambda>c0.
     then_do (getitem v 1) (\<lambda>v1. then_do (getitem pos 1) (\<lambda>c1.
     then_do (getitem v 2) (\<lambda>v2. then_do (getitem pos 2) (\<lambda>c2.
       Inr [v0 * sz + c0, v1 * sz + c1, v2 * sz + c2]))))))"

fun place_verts :: "vec list \<Rightarrow> real \<Rightarrow> vec \<Rightarrow> error + vec list" where
  "place_verts [] sz pos = Inr []"
| "place_verts (v # vs) sz pos =
     then_do (place_vertex v sz pos) (\<lambda>v'.
     then_do (place_verts vs sz pos) (\<lambda>vs'. Inr (v' # vs')))"

definition Square :: "vec option \<Rightarrow> real \<Rightarrow> error + shape" where
  "Square pos sz =
     then_do (place_verts unit_verts (sz / 2) (case pos of None \<Rightarrow> [0, 0, 0] | Some c \<Rightarrow> c))
       (\<lambda>v. Inr (Shape (Some v) (Some cube_edges)))"

section \<open>Engine\<close>

text \<open>
  The display surface is Tk, outside the repository. What the engine uses of it is a canvas
  that reports its size, creates a line from four coordinates and returns its id, and
  deletes an item by id, and a root window that takes timer requests. The engine state
  holds both, bound as they are once \<^verbatim>\<open>Engine.init\<close> has run.
\<close>

record surface =
  winfo_width :: int
  winfo_height :: int
  items :: "(nat \<times> real \<times> real \<times> real \<times> real) list"
  next_id :: nat

definition create_line :: "surface \<Rightarrow> real \<times> real \<times> real \<times> real \<Rightarrow> nat \<times> surface" where
  "create_line c l = (next_id c, c\<lparr>items := items c @ [(next_id c, l)], next_id := Suc (next_id c)\<rparr>)"

definition delete_item :: "nat \<Rightarrow> surface \<Rightarrow> surface" where
  "delete_item cid c = c\<lparr>items := filter (\<lambda>it. fst it \<noteq> cid) (items c)\<rparr>"

record engine =
  canvas :: surface
  after_requests :: "nat list"
  canvas_shape :: "int list"
  obs :: vec
  window_pos :: vec
  obs_is_window_pos :: bool
  window_size :: vec
  shapes :: "shape list"
  canvas_id :: "nat list"

text \<open>
  \<^verbatim>\<open>Engine.__init__\<close>: an argument that is \<^verbatim>\<open>None\<close> or an empty list takes the default.
  The engine keeps the lists it is given. \<open>obs_is_window_pos\<close> says that \<^verbatim>\<open>self.obs\<close> and
  \<^verbatim>\<open>self.window_pos\<close> are one list object, which is so when the caller passes one list for
  both (\<open>Engine_same_list\<close>), and not so for two lists or for the defaults (\<open>Engine\<close>).
\<close>

definition Engine :: "surface \<Rightarrow> vec option \<Rightarrow> vec option \<Rightarrow> vec option \<Rightarrow> engine" where
  "Engine c obs0 window_pos0 window_size0 =
     \<lparr>canvas = c,
      after_requests = [],
      canvas_shape = [0, 0],
      obs = (case obs0 of None \<Rightarrow> [0, 0, -1] | Some v \<Rightarrow> if v = [] then [0, 0, -1] else v),
      window_pos = (case window_pos0 of None \<Rightarrow> [-1/2, -1/2, 0]
                    | Some v \<Rightarrow> if v = [] then [-1/2, -1/2, 0] else v),
      obs_is_window_pos = False,
      window_size = (case window_size0 of None \<Rightarrow> [1, 1] | Some v \<Rightarrow> if v = [] then [1, 1] else v),
      shapes = [],
      canvas_id = []\<rparr>"

definition Engine_same_list :: "surface \<Rightarrow> vec \<Rightarrow> vec option \<Rightarrow> engine" where
  "Engine_same_list c l window_size0 =
     (Engine c (Some l) (Some l) window_size0)\<lparr>obs_is_window_pos := (l \<noteq> [])\<rparr>"

text \<open>
  \<^verbatim>\<open>Engine.move_obs\<close>: \<^verbatim>\<open>for i, x in enumerate(vect)\<close>, first \<^verbatim>\<open>self.obs[i] += x\<close>, then
  \<^verbatim>\<open>self.window_pos[i] += x\<close>. The engine is returned as the fault found it. When the two
  attributes are one list, the second statement reads what the first has stored.
\<close>

fun move_obs_from :: "nat \<Rightarrow> vec \<Rightarrow> engine \<Rightarrow> error option \<times> engine" where
  "move_obs_from i [] e = (None, e)"
| "move_obs_from i (x # vect) e =
     (case getitem (obs e) (int i) of
        Inl err \<Rightarrow> (Some err, e)
      | Inr ov \<Rightarrow>
          if obs_is_window_pos e
          then move_obs_from (Suc i) vect
                 (e\<lparr>obs := (obs e)[i := fadd (fadd ov x) x],
                    window_pos := (obs e)[i := fadd (fadd ov x) x]\<rparr>)
          else
            (case getitem (window_pos e) (int i) of
               Inl err \<Rightarrow> (Some err, e\<lparr>obs := (obs e)[i := fadd ov x]\<rparr>)
             | Inr wv \<Rightarrow>
                 move_obs_from (Suc i) vect
                   (e\<lparr>obs := (obs e)[i := fadd ov x],
                      window_pos := (window_pos e)[i := fadd wv x]\<rparr>)))"

definition move_obs :: "engine \<Rightarrow> vec \<Rightarrow> error option \<times> engine" where
  "move_obs e vect = move_obs_from 0 vect e"

definition add_shape :: "engine \<Rightarrow> shape \<Rightarrow> engine" where
  "add_shape e s = e\<lparr>shapes := shapes e @ [s]\<rparr>"

text \<open>\<^verbatim>\<open>Engine.render\<close>: shapes after the one that faults are not visited.\<close>

fun render_shapes :: "shape list \<Rightarrow> vec \<Rightarrow> vec \<Rightarrow> error option \<times> shape list" where
  "render_shapes [] ob wp = (None, [])"
| "render_shapes (s # ss) ob wp =
     (case window_projection s ob wp of
        (Some err, s') \<Rightarrow> (Some err, s' # ss)
      | (None, s') \<Rightarrow> (case render_shapes ss ob wp of (r, ss') \<Rightarrow> (r, s' # ss')))"

definition render :: "engine \<Rightarrow> error option \<times> engine" where
  "render e =
     (case render_shapes (shapes e) (obs e) (window_pos e) of
        (r, ss) \<Rightarrow> (r, e\<lparr>shapes := ss\<rparr>))"

text \<open>
  The body of the inner loop of \<^verbatim>\<open>Engine.draw\<close> up to the call of \<^verbatim>\<open>create_line\<close>: the
  two endpoints, the two translations, the four coordinates.
\<close>

definition edge_line :: "shape \<Rightarrow> int list \<Rightarrow> int list \<Rightarrow> error + real \<times> real \<times> real \<times> real" where
  "edge_line s edge cs =
     then_do (getitem edge 0) (\<lambda>i. then_do (getitem (verts_proj s) i) (\<lambda>a.
     then_do (getitem edge 1) (\<lambda>j. then_do (getitem (verts_proj s) j) (\<lambda>b.
     then_do (getitem cs 0) (\<lambda>w. then_do (getitem cs 1) (\<lambda>h.
     then_do (getitem a 0) (\<lambda>a0. then_do (getitem a 1) (\<lambda>a1.
     then_do (getitem b 0) (\<lambda>b0. then_do (getitem b 1) (\<lambda>b1.
       Inr (a0 * 200 + real_of_int w / 2, a1 * 200 + real_of_int h / 2,
            b0 * 200 + real_of_int w / 2, b1 * 200 + real_of_int h / 2)))))))))))"

definition draw_edge :: "shape \<Rightarrow> int list \<Rightarrow> engine \<Rightarrow> error option \<times> engine" where
  "draw_edge s edge e =
     (case edge_line s edge (canvas_shape e) of
        Inl err \<Rightarrow> (Some err, e)
      | Inr l \<Rightarrow>
          (case create_line (canvas e) l of
             (cid, c) \<Rightarrow> (None, e\<lparr>canvas := c, canvas_id := canvas_id e @ [cid]\<rparr>)))"

fun draw_edges :: "shape \<Rightarrow> int list list \<Rightarrow> engine \<Rightarrow> error option \<times> engine" where
  "draw_edges s [] e = (None, e)"
| "draw_edges s (edge # es) e =
     (case draw_edge s edge e of
        (Some err, e') \<Rightarrow> (Some err, e')
      | (None, e') \<Rightarrow> draw_edges s es e')"

fun draw_shapes :: "shape list \<Rightarrow> engine \<Rightarrow> error option \<times> engine" where
  "draw_shapes [] e = (None, e)"
| "draw_shapes (s # ss) e =
     (case draw_edges s (edges s) e of
        (Some err, e') \<Rightarrow> (Some err, e')
      | (None, e') \<Rightarrow> draw_shapes ss e')"

definition draw :: "engine \<Rightarrow> error option \<times> engine" where
  "draw e =
     draw_shapes (shapes e)
       (e\<lparr>canvas := fold delete_item (canvas_id e) (canvas e), canvas_id := []\<rparr>)"

text \<open>
  \<^verbatim>\<open>Engine.update\<close>. The optional callback \<^verbatim>\<open>func\<close> has the whole engine in reach (it is a
  closure over it in the demo), so it is a function on the engine state that may fault.
  \<^verbatim>\<open>self.root.after(30, self.update, func)\<close> is recorded as a timer request of 30 ms.
\<close>

definition update :: "engine \<Rightarrow> (engine \<Rightarrow> error option \<times> engine) option \<Rightarrow> error option \<times> engine" where
  "update e func =
     (case (case func of None \<Rightarrow> (None, e) | Some f \<Rightarrow> f e) of
        (Some err, e1) \<Rightarrow> (Some err, e1)
      | (None, e1) \<Rightarrow>
          (case render (e1\<lparr>canvas_shape := [winfo_width (canvas e1), winfo_height (canvas e1)]\<rparr>) of
             (Some err, e3) \<Rightarrow> (Some err, e3)
           | (None, e3) \<Rightarrow>
               (case draw e3 of
                  (Some err, e4) \<Rightarrow> (Some err, e4)
                | (None, e4) \<Rightarrow> (None, e4\<lparr>after_requests := after_requests e4 @ [30]\<rparr>))))"

text \<open>
  \<^verbatim>\<open>Engine.init\<close>: binds the canvas when one is given, configures and packs it (which
  draws nothing), and draws.
\<close>

definition init :: "engine \<Rightarrow> surface option \<Rightarrow> error option \<times> engine" where
  "init e c = draw (case c of None \<Rightarrow> e | Some c' \<Rightarrow> e\<lparr>canvas := c'\<rparr>)"

section \<open>Sequences of operations\<close>

text \<open>
  What a caller, or the callback of \<^verbatim>\<open>update\<close>, does to the scene through the engine:
  move the observer, add a shape, replace the vertices of a shape in place. An
  \<open>operation\<close> is one call of a method of the engine; \<open>run\<close> gives the state they leave
  behind, the state a fault leaves included.
\<close>

datatype call = MoveObs vec | AddShape shape | SetVerts nat "vec list"

fun do_call :: "call \<Rightarrow> engine \<Rightarrow> error option \<times> engine" where
  "do_call (MoveObs d) e = move_obs e d"
| "do_call (AddShape s) e = (None, add_shape e s)"
| "do_call (SetVerts k vs) e =
     (if k < length (shapes e)
      then (None, e\<lparr>shapes := (shapes e)[k := (shapes e ! k)\<lparr>verts := vs\<rparr>]\<rparr>)
      else (Some IndexError, e))"

fun do_calls :: "call list \<Rightarrow> engine \<Rightarrow> error option \<times> engine" where
  "do_calls [] e = (None, e)"
| "do_calls (c # cs) e =
     (case do_call c e of
        (Some err, e') \<Rightarrow> (Some err, e')
      | (None, e') \<Rightarrow> do_calls cs e')"

datatype operation = Init "surface option" | Call call | Render | Draw | Tick "call list option"

fun perform :: "operation \<Rightarrow> engine \<Rightarrow> error option \<times> engine" where
  "perform (Init c) e = init e c"
| "perform (Call c) e = do_call c e"
| "perform Render e = render e"
| "perform Draw e = draw e"
| "perform (Tick cb) e = update e (map_option do_calls cb)"

fun run :: "operation list \<Rightarrow> engine \<Rightarrow> engine" where
  "run [] e = e"
| "run (a # as) e = run as (snd (perform a e))"

section \<open>Notions of the specification\<close>

text \<open>
  The coordinate along one axis of the point where the ray from the observer through the
  vertex meets the plane \<open>z = wz\<close>, as section 4.2 of the specification writes it: the
  slope \<open>a = (P.z - O.z) / (P[A] - O[A])\<close> and \<open>R[A] = (1/a) * (W.z - O.z + a * O[A])\<close>, each
  operation that of doubles.
\<close>

definition slope :: "real \<Rightarrow> real \<Rightarrow> real \<Rightarrow> real \<Rightarrow> real" where
  "slope pa oa pz oz = rnd (fsub pz oz / fsub pa oa)"

definition ray_coordinate :: "real \<Rightarrow> real \<Rightarrow> real \<Rightarrow> real \<Rightarrow> real \<Rightarrow> real" where
  "ray_coordinate pa oa pz oz wz =
     (if pa \<noteq> oa
      then fmul (rnd (1 / slope pa oa pz oz)) (fadd (fsub wz oz) (fmul (slope pa oa pz oz) oa))
      else pa)"

text \<open>
  A projection all of whose steps are exact: the coordinates are doubles, and so is the
  exact result of every operation that the projection of the vertex performs on an axis,
  up to the fault if there is one.
\<close>

definition exact_axis :: "vec \<Rightarrow> vec \<Rightarrow> vec \<Rightarrow> nat \<Rightarrow> bool" where
  "exact_axis p ob wp k =
     (if p ! k = ob ! k then True
      else if p ! 2 = ob ! 2 then True
      else list_all is_double
        [p ! 2 - ob ! 2, p ! k - ob ! k,
         (p ! 2 - ob ! 2) / (p ! k - ob ! k),
         1 / ((p ! 2 - ob ! 2) / (p ! k - ob ! k)),
         wp ! 2 - ob ! 2,
         (p ! 2 - ob ! 2) / (p ! k - ob ! k) * ob ! k,
         wp ! 2 - ob ! 2 + (p ! 2 - ob ! 2) / (p ! k - ob ! k) * ob ! k,
         1 / ((p ! 2 - ob ! 2) / (p ! k - ob ! k))
           * (wp ! 2 - ob ! 2 + (p ! 2 - ob ! 2) / (p ! k - ob ! k) * ob ! k)])"

definition exact_projection :: "vec \<Rightarrow> vec \<Rightarrow> vec \<Rightarrow> bool" where
  "exact_projection p ob wp =
     (list_all is_double (p @ ob @ wp) \<and> exact_axis p ob wp 0 \<and> exact_axis p ob wp 1)"

text \<open>
  A move all of whose sums are exact, and a sequence of calls or of operations all of whose
  moves are.
\<close>

definition exact_move :: "engine \<Rightarrow> vec \<Rightarrow> bool" where
  "exact_move e d =
     list_all is_double
       (obs e @ window_pos e @ d @ map2 (+) (obs e) d @ map2 (+) (window_pos e) d)"

fun exact_call :: "call \<Rightarrow> engine \<Rightarrow> bool" where
  "exact_call (MoveObs d) e = exact_move e d"
| "exact_call (AddShape s) e = True"
| "exact_call (SetVerts k vs) e = True"

fun exact_calls :: "call list \<Rightarrow> engine \<Rightarrow> bool" where
  "exact_calls [] e = True"
| "exact_calls (c # cs) e =
     (exact_call c e \<and>
      (case do_call c e of (Some err, e') \<Rightarrow> True | (None, e') \<Rightarrow> exact_calls cs e'))"

fun exact_operation :: "operation \<Rightarrow> engine \<Rightarrow> bool" where
  "exact_operation (Call c) e = exact_call c e"
| "exact_operation (Tick (Some cs)) e = exact_calls cs e"
| "exact_operation a e = True"

fun exact_run :: "operation list \<Rightarrow> engine \<Rightarrow> bool" where
  "exact_run [] e = True"
| "exact_run (a # as) e = (exact_operation a e \<and> exact_run as (snd (perform a e)))"

text \<open>The offset of the view plane from the observer, component by component.\<close>

definition offset :: "engine \<Rightarrow> vec" where
  "offset e = map2 (-) (window_pos e) (obs e)"

text \<open>The indices Python accepts for a list of \<open>n\<close> elements.\<close>

definition index_ok :: "nat \<Rightarrow> int \<Rightarrow> bool" where
  "index_ok n i = (- int n \<le> i \<and> i < int n)"

definition edge_ok :: "shape \<Rightarrow> int list \<Rightarrow> bool" where
  "edge_ok s edge =
     (index_ok (length (verts_proj s)) (edge ! 0) \<and> index_ok (length (verts_proj s)) (edge ! 1))"

text \<open>
  The wireframe as a graph on the vertex indices: the degree of a vertex, the vertices
  reached from a set in one more step, connectedness of the graph on \<open>0, ..., n - 1\<close> (after
  \<open>n\<close> steps from vertex \<open>0\<close> everything reachable has been reached).
\<close>

definition degree :: "int list list \<Rightarrow> int \<Rightarrow> nat" where
  "degree es v = length (filter (\<lambda>e. v \<in> set e) es)"

definition grow :: "int list list \<Rightarrow> int list \<Rightarrow> int list" where
  "grow es vs = remdups (vs @ concat (filter (\<lambda>e. list_ex (\<lambda>v. v \<in> set e) vs) es))"

definition connected_graph :: "nat \<Rightarrow> int list list \<Rightarrow> bool" where
  "connected_graph n es = (set ((grow es ^^ n) [0]) = set (map int [0..<n]))"

text \<open>
  The topology of a cube: every edge has two ends among the corners, and two corners are
  joined, by one edge, exactly when they differ in one coordinate.
\<close>

definition differing :: "vec \<Rightarrow> vec \<Rightarrow> nat" where
  "differing u v = length (filter (\<lambda>(a, b). a \<noteq> b) (zip u v))"

definition joins :: "int list list \<Rightarrow> nat \<Rightarrow> nat \<Rightarrow> nat" where
  "joins es i j = length (filter (\<lambda>e. e = [int i, int j] \<or> e = [int j, int i]) es)"

definition cube_topology :: "vec list \<Rightarrow> int list list \<Rightarrow> bool" where
  "cube_topology vs es =
     (list_all (\<lambda>e. length e = 2 \<and> list_all (\<lambda>v. 0 \<le> v \<and> v < int (length vs)) e) es \<and>
      list_all (\<lambda>i. list_all (\<lambda>j.
          joins es i j = (if differing (vs ! i) (vs ! j) = 1 then 1 else 0))
        [0..<length vs]) [0..<length vs])"

text \<open>The edges with both ends at depth \<open>z\<close>, and the edges between two depths.\<close>

definition edges_at_depth :: "vec list \<Rightarrow> int list list \<Rightarrow> real \<Rightarrow> int list list" where
  "edges_at_depth vs es z =
     filter (\<lambda>e. vs ! nat (e ! 0) ! 2 = z \<and> vs ! nat (e ! 1) ! 2 = z) es"

definition connecting_edges :: "vec list \<Rightarrow> int list list \<Rightarrow> int list list" where
  "connecting_edges vs es = filter (\<lambda>e. vs ! nat (e ! 0) ! 2 \<noteq> vs ! nat (e ! 1) ! 2) es"

text \<open>
  The eight points at \<open>c \<plusminus> h\<close> on each axis, in the order of the table of \<^verbatim>\<open>Square\<close>.
\<close>

definition corners :: "real \<Rightarrow> real \<Rightarrow> real \<Rightarrow> real \<Rightarrow> vec list" where
  "corners cx cy cz h =
     [[cx - h, cy - h, cz - h], [cx + h, cy - h, cz - h],
      [cx + h, cy + h, cz - h], [cx - h, cy + h, cz - h],
      [cx - h, cy - h, cz + h], [cx + h, cy - h, cz + h],
      [cx + h, cy + h, cz + h], [cx - h, cy + h, cz + h]]"

text \<open>
  The tick as section 4.3 of the specification words it: refresh the stored viewport
  size, run the callback, project, emit, schedule the next tick. \<open>in_order\<close> runs steps one
  after the other and stops at the first fault.
\<close>

definition run_callback ::
  "(engine \<Rightarrow> error option \<times> engine) option \<Rightarrow> engine \<Rightarrow> error option \<times> engine" where
  "run_callback func e = (case func of None \<Rightarrow> (None, e) | Some f \<Rightarrow> f e)"

definition refresh_viewport :: "engine \<Rightarrow> error option \<times> engine" where
  "refresh_viewport e =
     (None, e\<lparr>canvas_shape := [winfo_width (canvas e), winfo_height (canvas e)]\<rparr>)"

definition reschedule :: "engine \<Rightarrow> error option \<times> engine" where
  "reschedule e = (None, e\<lparr>after_requests := after_requests e @ [30]\<rparr>)"

fun in_order :: "(engine \<Rightarrow> error option \<times> engine) list \<Rightarrow> engine \<Rightarrow> error option \<times> engine" where
  "in_order [] e = (None, e)"
| "in_order (step # steps) e =
     (case step e of
        (Some err, e') \<Rightarrow> (Some err, e')
      | (None, e') \<Rightarrow> in_order steps e')"

definition tick_as_specified ::
  "engine \<Rightarrow> (engine \<Rightarrow> error option \<times> engine) option \<Rightarrow> error option \<times> engine" where
  "tick_as_specified e func =
     in_order [refresh_viewport, run_callback func, render, draw, reschedule] e"

text \<open>
  The objects of the examples: a 600 by 500 canvas with nothing on it, the engine of the
  demo on it, and a callback that copies the stored viewport size into \<^verbatim>\<open>window_size\<close>.
\<close>

definition demo_canvas :: surface where
  "demo_canvas = \<lparr>winfo_width = 600, winfo_height = 500, items = [], next_id = 1\<rparr>"

definition demo_engine :: engine where
  "demo_engine = Engine demo_canvas (Some [0, 0, -1]) (Some [-1/2, -1/2, 0]) (Some [1, 1])"

definition viewport_reader :: "engine \<Rightarrow> error option \<times> engine" where
  "viewport_reader e = (None, e\<lparr>window_size := map real_of_int (canvas_shape e)\<rparr>)"

definition demo_scene :: engine where
  "demo_scene =
     add_shape demo_engine \<lparr>verts = [[1, 0, 1], [0, 2, 3]], edges = [[0, 1]], verts_proj = []\<rparr>"

text \<open>
  The element a Python index denotes, the pixel of a projected point
  (\<open>pixel = projected * scale + viewport_size / 2\<close> with the scale 200 of the source), and
  the segment of an edge: the pixels of its two ends.
\<close>

definition resolve :: "'a list \<Rightarrow> int \<Rightarrow> 'a" where
  "resolve xs i = xs ! nat (if i < 0 then int (length xs) + i else i)"

definition to_pixel :: "int list \<Rightarrow> vec \<Rightarrow> real \<times> real" where
  "to_pixel cs p = (p ! 0 * 200 + real_of_int (cs ! 0) / 2, p ! 1 * 200 + real_of_int (cs ! 1) / 2)"

definition segment :: "int list \<Rightarrow> shape \<Rightarrow> int list \<Rightarrow> real \<times> real \<times> real \<times> real" where
  "segment cs s edge =
     (fst (to_pixel cs (resolve (verts_proj s) (edge ! 0))),
      snd (to_pixel cs (resolve (verts_proj s) (edge ! 0))),
      fst (to_pixel cs (resolve (verts_proj s) (edge ! 1))),
      snd (to_pixel cs (resolve (verts_proj s) (edge ! 1))))"

text \<open>
  A shape whose edges have two ends and whose projected points have two coordinates; the
  projected points that \<^verbatim>\<open>window_projection\<close> stores always have.
\<close>

definition well_formed :: "shape \<Rightarrow> bool" where
  "well_formed s =
     (list_all (\<lambda>edge. 2 \<le> length edge) (edges s) \<and> list_all (\<lambda>p. 2 \<le> length p) (verts_proj s))"

text \<open>
  Three scenes with a projected shape: one drawn on a 600 by 500 viewport, one with the
  edge \<open>[0, -1]\<close>, one with the edge \<open>[0, 2]\<close>.
\<close>

definition drawn_scene :: engine where
  "drawn_scene =
     (add_shape demo_engine
        \<lparr>verts = [[1, 0, 1], [0, 2, 3]], edges = [[0, 1]], verts_proj = [[1/2, 0], [0, 1/2]]\<rparr>)
     \<lparr>canvas_shape := [600, 500]\<rparr>"

definition wrapped_scene :: engine where
  "wrapped_scene =
     add_shape demo_engine
       \<lparr>verts = [[1, 0, 1], [0, 2, 3]], edges = [[0, -1]], verts_proj = [[1/2, 0], [0, 1/2]]\<rparr>"

definition broken_scene :: engine where
  "broken_scene =
     add_shape demo_engine
       \<lparr>verts = [[1, 0, 1], [0, 2, 3]], edges = [[0, 2]], verts_proj = [[1/2, 0], [0, 1/2]]\<rparr>"

text \<open>
  An engine whose observer and plane origin are at \<open>0.1\<close> and \<open>0.7\<close> in depth, and an engine
  built on one list for both.
\<close>

definition drifting_engine :: engine where
  "drifting_engine =
     Engine demo_canvas (Some [0, 0, rnd (1/10)]) (Some [-1/2, -1/2, rnd (7/10)]) None"

definition one_list_engine :: engine where
  "one_list_engine = Engine_same_list demo_canvas [0, 0, -1] None"

section \<open>Evaluation of the embedded expressions\<close>

lemma then_do_simps [simp]:
  "then_do (Inr v) f = f v"
  "then_do (Inl err) f = Inl err"
  by (simp_all add: then_do_def)

lemma getitem_nth:
  "i < length xs \<Longrightarrow> getitem xs (int i) = Inr (xs ! i)"
  by (simp add: getitem_def)

lemma getitem_0 [simp]: "getitem (x # xs) 0 = Inr x"
  by (simp add: getitem_def)

lemma getitem_1 [simp]: "getitem (x # y # xs) 1 = Inr y"
  by (simp add: getitem_def)

lemma getitem_2 [simp]: "getitem (x # y # z # xs) 2 = Inr z"
  by (simp add: getitem_def)

lemma getitem_nat_Inr: "getitem xs (int i) = Inr v \<longleftrightarrow> i < length xs \<and> v = xs ! i"
  by (auto simp: getitem_def)

lemma getitem_nat_Inl: "getitem xs (int i) = Inl err \<longleftrightarrow> length xs \<le> i \<and> err = IndexError"
  by (auto simp: getitem_def)

text \<open>The rounding: the exponent is the one of the binade, the integer is a nearest one.\<close>

lemma bits_bounds: "0 < n \<Longrightarrow> 2 ^ (bits n - 1) \<le> n \<and> n < 2 ^ bits n"
proof (induction n rule: bits.induct)
  case (1 n)
  show ?case
  proof (cases "n div 2 = 0")
    case True
    with "1.prems" have "n = 1" by (cases n) auto
    then show ?thesis by (simp add: bits.simps)
  next
    case False
    then have h: "0 < n div 2" by simp
    have ih: "2 ^ (bits (n div 2) - 1) \<le> n div 2 \<and> n div 2 < 2 ^ bits (n div 2)"
      using "1.IH" "1.prems" h by simp
    have b: "bits n = Suc (bits (n div 2))" using "1.prems" by (simp add: bits.simps [of n])
    have pos: "0 < bits (n div 2)" using h by (simp add: bits.simps [of "n div 2"])
    then obtain c where c: "bits (n div 2) = Suc c" by (cases "bits (n div 2)") auto
    have "2 * 2 ^ c \<le> 2 * (n div 2)" using ih c by simp
    also have "\<dots> \<le> n" by simp
    finally have lo: "2 ^ (bits n - 1) \<le> n" by (simp add: b c)
    have "n < 2 * (n div 2) + 2" by presburger
    also have "\<dots> \<le> 2 * 2 ^ bits (n div 2)" using ih by simp
    finally have hi: "n < 2 ^ bits n" by (simp add: b)
    from lo hi show ?thesis ..
  qed
qed

lemma bits_pos: "0 < n \<Longrightarrow> 0 < bits n"
  by (simp add: bits.simps [of n])

lemma ilog2_bounds:
  assumes "0 < x"
  shows "pow2 (ilog2 x) \<le> x \<and> x < pow2 (ilog2 x + 1)"
proof (cases "1 \<le> x")
  case True
  define n where "n = nat \<lfloor>x\<rfloor>"
  have n: "0 < n" using True by (simp add: n_def)
  have nx: "real n \<le> x" "x < real n + 1"
    using True by (simp_all add: n_def)
  note bb = bits_bounds [OF n]
  obtain c where c: "bits n = Suc c" using bits_pos [OF n] by (cases "bits n") auto
  have il: "ilog2 x = int c" using True by (simp add: ilog2_def n_def [symmetric] c)
  have "2 ^ c \<le> n" using bb c by simp
  then have "real (2 ^ c) \<le> real n" by (rule of_nat_mono)
  then have "(2::real) ^ c \<le> real n" by simp
  then have "(2::real) ^ c \<le> x" using nx(1) by (rule order_trans)
  then have lo: "pow2 (ilog2 x) \<le> x" by (simp add: il pow2_def)
  have "n + 1 \<le> 2 ^ Suc c" using bb c by simp
  then have "real (n + 1) \<le> real (2 ^ Suc c)" by (rule of_nat_mono)
  then have "real n + 1 \<le> 2 ^ Suc c" by simp
  with nx(2) have "x < 2 ^ Suc c" by (rule less_le_trans)
  then have hi: "x < pow2 (ilog2 x + 1)" by (simp add: il pow2_def nat_add_distrib)
  from lo hi show ?thesis ..
next
  case False
  define y where "y = 1 / x"
  have y1: "1 < y" using assms False by (simp add: y_def)
  define m where "m = nat \<lceil>y\<rceil>"
  have m2: "2 \<le> m" using y1 by (simp add: m_def) linarith
  have my: "real m - 1 < y" "y \<le> real m"
    using y1 by (simp_all add: m_def) linarith+
  have m1: "0 < m - 1" using m2 by simp
  note bb = bits_bounds [OF m1]
  obtain c where c: "bits (m - 1) = Suc c" using bits_pos [OF m1] by (cases "bits (m - 1)") auto
  have il: "ilog2 x = - int (Suc c)"
    using False c by (simp add: ilog2_def y_def [symmetric] m_def [symmetric])
  have suc: "nat (int k + 1) = Suc k" for k by linarith
  have "m - 1 < 2 ^ Suc c" using bb c by simp
  then have "m \<le> 2 ^ Suc c" using m2 by linarith
  then have "real m \<le> real (2 ^ Suc c)" by (rule of_nat_mono)
  then have "real m \<le> 2 ^ Suc c" by simp
  with my(2) have "y \<le> 2 ^ Suc c" by (rule order_trans)
  then have "1 / 2 ^ Suc c \<le> x"
    using assms by (simp add: y_def field_simps)
  then have lo: "pow2 (ilog2 x) \<le> x" by (simp add: il pow2_def suc)
  have "2 ^ c \<le> m - 1" using bb c by simp
  then have "real (2 ^ c) \<le> real (m - 1)" by (rule of_nat_mono)
  then have "2 ^ c \<le> real m - 1" using m2 by (simp add: of_nat_diff)
  then have "2 ^ c < y" using my(1) by (rule le_less_trans)
  then have "x < 1 / 2 ^ c" using assms by (simp add: y_def field_simps)
  then have hi: "x < pow2 (ilog2 x + 1)" by (cases c) (simp_all add: il pow2_def suc)
  from lo hi show ?thesis ..
qed

lemma half_even_near: "\<bar>y - of_int (half_even y)\<bar> \<le> 1 / 2"
  by (simp add: half_even_def)

lemma pow2_pos: "0 < pow2 e"
  by (simp add: pow2_def)

lemma rnd_near:
  "\<bar>rnd x - x\<bar> \<le> pow2 (max (ilog2 \<bar>x\<bar>) (- 1022) - 52) / 2"
proof (cases "x = 0")
  case True
  then show ?thesis using pow2_pos [of "max (ilog2 \<bar>x\<bar>) (- 1022) - 52"] by (simp add: rnd_def)
next
  case False
  define q where "q = pow2 (max (ilog2 \<bar>x\<bar>) (- 1022) - 52)"
  have q: "0 < q" by (simp add: q_def pow2_pos)
  have "x - q * of_int (half_even (x / q)) = q * (x / q - of_int (half_even (x / q)))"
    using q by (simp add: right_diff_distrib)
  then have "\<bar>x - q * of_int (half_even (x / q))\<bar> = q * \<bar>x / q - of_int (half_even (x / q))\<bar>"
    using q by (simp only: abs_mult)
  then have "\<bar>rnd x - x\<bar> = q * \<bar>x / q - of_int (half_even (x / q))\<bar>"
    using False by (simp add: rnd_def q_def [symmetric] abs_minus_commute)
  also have "\<dots> \<le> q * (1 / 2)"
    using half_even_near [of "x / q"] q by (intro mult_left_mono) simp_all
  finally show ?thesis by (simp add: q_def)
qed

lemmas rnd_eval = rnd_def ilog2_def half_even_def pow2_def bits.simps

lemmas double_eval = fadd_def fsub_def fmul_def truediv_def is_double_def rnd_eval

lemma rnd_0 [simp]: "rnd 0 = 0"
  by (simp add: rnd_def)

lemma getitem_2_value: "getitem xs 2 = Inr v \<Longrightarrow> v = xs ! 2"
  using getitem_nat_Inr [of xs 2 v] by simp

lemma axis_projection_value:
  assumes "axis_projection p ob wp (int k) = Inr r"
  shows "r = ray_coordinate (p ! k) (ob ! k) (p ! 2) (ob ! 2) (wp ! 2)"
proof -
  from assms obtain pk ok where pk: "getitem p (int k) = Inr pk" and ok: "getitem ob (int k) = Inr ok"
    by (auto simp: axis_projection_def then_do_def split: sum.splits)
  then have k: "pk = p ! k" "ok = ob ! k" by (simp_all add: getitem_nat_Inr)
  show ?thesis
  proof (cases "pk = ok")
    case True
    then show ?thesis using assms pk ok k by (simp add: axis_projection_def ray_coordinate_def)
  next
    case False
    with assms pk ok obtain pz oz wz
      where z: "getitem p 2 = Inr pz" "getitem ob 2 = Inr oz" "getitem wp 2 = Inr wz"
      by (auto simp: axis_projection_def then_do_def split: sum.splits)
    then have zv: "pz = p ! 2" "oz = ob ! 2" "wz = wp ! 2"
      by (simp_all add: getitem_2_value)
    show ?thesis
      using assms pk ok z False
      by (auto simp: axis_projection_def truediv_def ray_coordinate_def slope_def k [symmetric]
          zv [symmetric] split: if_splits)
  qed
qed

lemma project_vertex_value:
  assumes "project_vertex p ob wp = Inr r"
  shows "r = [ray_coordinate (p ! 0) (ob ! 0) (p ! 2) (ob ! 2) (wp ! 2),
              ray_coordinate (p ! 1) (ob ! 1) (p ! 2) (ob ! 2) (wp ! 2)]"
proof -
  from assms obtain r0 r1 where a: "axis_projection p ob wp 0 = Inr r0"
    "axis_projection p ob wp 1 = Inr r1" and r: "r = [r0, r1]"
    by (auto simp: project_vertex_def then_do_def split: sum.splits)
  show ?thesis
    using axis_projection_value [of p ob wp 0 r0] axis_projection_value [of p ob wp 1 r1] a r
    by simp
qed

lemma project_verts_value:
  "project_verts ps ob wp acc = (None, vp) \<Longrightarrow>
     vp = acc @ map (\<lambda>p. [ray_coordinate (p ! 0) (ob ! 0) (p ! 2) (ob ! 2) (wp ! 2),
                            ray_coordinate (p ! 1) (ob ! 1) (p ! 2) (ob ! 2) (wp ! 2)]) ps
     \<and> list_all (\<lambda>p. project_vertex p ob wp =
          Inr [ray_coordinate (p ! 0) (ob ! 0) (p ! 2) (ob ! 2) (wp ! 2),
               ray_coordinate (p ! 1) (ob ! 1) (p ! 2) (ob ! 2) (wp ! 2)]) ps"
proof (induction ps arbitrary: acc)
  case Nil
  then show ?case by simp
next
  case (Cons p ps)
  from Cons.prems obtain r where r: "project_vertex p ob wp = Inr r"
    and rest: "project_verts ps ob wp (acc @ [r]) = (None, vp)"
    by (auto split: sum.splits)
  note v = project_vertex_value [OF r]
  show ?case using Cons.IH [OF rest] r v by simp
qed

lemma exact_axis_eval:
  assumes "3 \<le> length p" "3 \<le> length ob" "3 \<le> length wp" "k < 2" and ex: "exact_axis p ob wp k"
  shows "axis_projection p ob wp (int k) =
     (if p ! k = ob ! k then Inr (p ! k)
      else if p ! 2 = ob ! 2 then Inl ZeroDivisionError
      else Inr (1 / ((p ! 2 - ob ! 2) / (p ! k - ob ! k))
                * (wp ! 2 - ob ! 2 + (p ! 2 - ob ! 2) / (p ! k - ob ! k) * ob ! k)))"
proof -
  have g: "getitem p (int k) = Inr (p ! k)" "getitem ob (int k) = Inr (ob ! k)"
    "getitem p 2 = Inr (p ! 2)" "getitem ob 2 = Inr (ob ! 2)" "getitem wp 2 = Inr (wp ! 2)"
    using assms(1-4) getitem_nth [of k p] getitem_nth [of k ob] getitem_nth [of 2 p]
      getitem_nth [of 2 ob] getitem_nth [of 2 wp] by simp_all
  show ?thesis
  proof (cases "p ! k = ob ! k")
    case True
    then show ?thesis by (simp add: axis_projection_def g)
  next
    case ne: False
    show ?thesis
    proof (cases "p ! 2 = ob ! 2")
      case True
      then show ?thesis using ne
        by (simp add: axis_projection_def g truediv_def fsub_def)
    next
      case False
      have d: "rnd (p ! 2 - ob ! 2) = p ! 2 - ob ! 2" "rnd (p ! k - ob ! k) = p ! k - ob ! k"
        "rnd ((p ! 2 - ob ! 2) / (p ! k - ob ! k)) = (p ! 2 - ob ! 2) / (p ! k - ob ! k)"
        "rnd (1 / ((p ! 2 - ob ! 2) / (p ! k - ob ! k))) = 1 / ((p ! 2 - ob ! 2) / (p ! k - ob ! k))"
        "rnd (wp ! 2 - ob ! 2) = wp ! 2 - ob ! 2"
        "rnd ((p ! 2 - ob ! 2) / (p ! k - ob ! k) * ob ! k) = (p ! 2 - ob ! 2) / (p ! k - ob ! k) * ob ! k"
        "rnd (wp ! 2 - ob ! 2 + (p ! 2 - ob ! 2) / (p ! k - ob ! k) * ob ! k)
           = wp ! 2 - ob ! 2 + (p ! 2 - ob ! 2) / (p ! k - ob ! k) * ob ! k"
        "rnd (1 / ((p ! 2 - ob ! 2) / (p ! k - ob ! k))
               * (wp ! 2 - ob ! 2 + (p ! 2 - ob ! 2) / (p ! k - ob ! k) * ob ! k))
           = 1 / ((p ! 2 - ob ! 2) / (p ! k - ob ! k))
               * (wp ! 2 - ob ! 2 + (p ! 2 - ob ! 2) / (p ! k - ob ! k) * ob ! k)"
        using ex ne False by (simp_all add: exact_axis_def is_double_def)
      have nz: "p ! k - ob ! k \<noteq> 0" "(p ! 2 - ob ! 2) / (p ! k - ob ! k) \<noteq> 0"
        using ne False by simp_all
      show ?thesis
        using ne False nz
        by (simp only: axis_projection_def g then_do_simps truediv_def fsub_def fadd_def fmul_def d
            if_False if_True) (simp add: d)
    qed
  qed
qed

lemmas projection_eval =
  window_projection_def project_vertex_def axis_projection_def double_eval

lemmas engine_eval = demo_engine_def demo_canvas_def Engine_def Engine_same_list_def

section \<open>The projection of a shape\<close>

lemma project_vertex_exact:
  assumes "3 \<le> length p" "3 \<le> length ob" "3 \<le> length wp"
    and "exact_projection p ob wp"
    and "p ! 2 = ob ! 2 \<longrightarrow> p ! 0 = ob ! 0 \<and> p ! 1 = ob ! 1"
  shows "\<exists>r. project_vertex p ob wp = Inr r"
  using exact_axis_eval [OF assms(1-3), of 0] exact_axis_eval [OF assms(1-3), of 1] assms(4,5)
  by (auto simp: project_vertex_def exact_projection_def)

lemma project_verts_returns:
  "list_all (\<lambda>p. \<exists>r. project_vertex p ob wp = Inr r) ps \<Longrightarrow> fst (project_verts ps ob wp acc) = None"
  by (induction ps arbitrary: acc) auto




text \<open>Translating observer and plane: the algebra of one axis, when every step is exact.\<close>

lemma ray_shift:
  fixes pa oa da pz oz dz wz :: real
  assumes "pa - da \<noteq> oa" and "pz - dz \<noteq> oz"
  shows "1 / ((pz - (oz + dz)) / (pa - (oa + da))) *
           (wz + dz - (oz + dz) + (pz - (oz + dz)) / (pa - (oa + da)) * (oa + da))
         = 1 / ((pz - dz - oz) / (pa - da - oa)) * (wz - oz + (pz - dz - oz) / (pa - da - oa) * oa) + da"
proof -
  define u where "u = pa - da - oa"
  define v where "v = pz - dz - oz"
  have u: "u \<noteq> 0" and v: "v \<noteq> 0" using assms by (simp_all add: u_def v_def)
  have e1: "pa - (oa + da) = u" and e2: "pz - (oz + dz) = v" and e3: "wz + dz - (oz + dz) = wz - oz"
    by (simp_all add: u_def v_def)
  have "1 / (v / u) * (wz - oz + v / u * (oa + da)) = 1 / (v / u) * (wz - oz + v / u * oa) + da"
    using u v by (simp add: field_simps)
  then show ?thesis
    unfolding e1 e2 e3 u_def [symmetric] v_def [symmetric] .
qed

lemma axis_projection_shift:
  assumes "length p = 3" "length ob = 3" "length wp = 3" "length d = 3" "k < 2"
    and "exact_axis p (map2 (+) ob d) (map2 (+) wp d) k"
    and "exact_axis (map2 (-) p d) ob wp k"
  shows "axis_projection p (map2 (+) ob d) (map2 (+) wp d) (int k) =
     (case axis_projection (map2 (-) p d) ob wp (int k) of
        Inl err \<Rightarrow> Inl err | Inr r \<Rightarrow> Inr (r + d ! k))"
proof -
  have l: "3 \<le> length p" "3 \<le> length (map2 (+) ob d)" "3 \<le> length (map2 (+) wp d)"
    "3 \<le> length (map2 (-) p d)" "3 \<le> length ob" "3 \<le> length wp"
    using assms(1-4) by simp_all
  have n: "map2 (+) ob d ! k = ob ! k + d ! k" "map2 (+) ob d ! 2 = ob ! 2 + d ! 2"
    "map2 (+) wp d ! 2 = wp ! 2 + d ! 2" "map2 (-) p d ! k = p ! k - d ! k"
    "map2 (-) p d ! 2 = p ! 2 - d ! 2"
    using assms(1-5) by simp_all
  note L = exact_axis_eval [OF l(1,2,3) assms(5,6), unfolded n]
  note R = exact_axis_eval [OF l(4,5,6) assms(5,7), unfolded n]
  have c1: "p ! k = ob ! k + d ! k \<longleftrightarrow> p ! k - d ! k = ob ! k" by auto
  have c2: "p ! 2 = ob ! 2 + d ! 2 \<longleftrightarrow> p ! 2 - d ! 2 = ob ! 2" by auto
  show ?thesis
  proof (cases "p ! k - d ! k = ob ! k")
    case True
    then show ?thesis by (simp add: L R c1)
  next
    case ne: False
    show ?thesis
    proof (cases "p ! 2 - d ! 2 = ob ! 2")
      case True
      then show ?thesis using ne by (simp add: L R c1 c2)
    next
      case False
      then show ?thesis
        using ne ray_shift [OF ne False, of "wp ! 2"] by (simp add: L R c1 c2)
    qed
  qed
qed




lemma axis_projection_plane_z:
  "getitem wp1 2 = getitem wp2 2 \<Longrightarrow> axis_projection p ob wp1 k = axis_projection p ob wp2 k"
  by (simp add: axis_projection_def cong: if_cong)

text \<open>
  Claim C9. The projection reads the plane origin at index 2 only: two plane origins with
  the same \<open>z\<close> (the same outcome of \<^verbatim>\<open>window_pos[2]\<close>), whatever their \<open>x\<close> and \<open>y\<close>, give
  the same projected shape.
\<close>

theorem projection_reads_plane_z_only:
  assumes "getitem wp1 2 = getitem wp2 2"
  shows "window_projection s ob wp1 = window_projection s ob wp2"
proof -
  have v: "project_vertex p ob wp1 = project_vertex p ob wp2" for p
    by (simp add: project_vertex_def axis_projection_plane_z [OF assms])
  have "project_verts ps ob wp1 acc = project_verts ps ob wp2 acc" for ps acc
    by (induction ps arbitrary: acc) (simp_all add: v split: sum.splits)
  then show ?thesis by (simp add: window_projection_def)
qed

theorem projection_reads_plane_z_only_witness:
  "window_projection \<lparr>verts = [[1, 2, 3]], edges = [], verts_proj = []\<rparr> [0, 0, -1] [-1/2, -1/2, 0]
     = window_projection \<lparr>verts = [[1, 2, 3]], edges = [], verts_proj = []\<rparr> [0, 0, -1] [7, 9, 0]
   \<and> window_projection \<lparr>verts = [[1, 2, 3]], edges = [], verts_proj = []\<rparr> [0, 0, -1] [7, 9, 0]
     = (None, \<lparr>verts = [[1, 2, 3]], edges = [], verts_proj = [[1/4, 1/2]]\<rparr>)"
proof -
  have h: "getitem [-1/2, -1/2, 0::real] 2 = getitem [7, 9, 0] 2" by simp
  show ?thesis
    using projection_reads_plane_z_only [OF h, of "\<lparr>verts = [[1, 2, 3]], edges = [], verts_proj = []\<rparr>" "[0, 0, -1]"]
    by (simp add: projection_eval)
qed

lemma window_projection_frame:
  "(snd (window_projection s ob wp))\<lparr>verts_proj := verts_proj s\<rparr> = s"
  by (simp add: window_projection_def split: prod.splits)

lemma render_shapes_frame:
  "map (\<lambda>s. s\<lparr>verts_proj := []\<rparr>) (snd (render_shapes ss ob wp)) = map (\<lambda>s. s\<lparr>verts_proj := []\<rparr>) ss"
proof (induction ss)
  case Nil
  show ?case by simp
next
  case (Cons s ss)
  have "(snd (window_projection s ob wp))\<lparr>verts_proj := []\<rparr> = s\<lparr>verts_proj := []\<rparr>"
    by (simp add: window_projection_def split: prod.splits)
  with Cons show ?case
    by (auto split: prod.splits option.splits)
qed

lemma render_shapes_fresh:
  "fst (render_shapes ss ob wp) = None \<Longrightarrow>
   list_all2 (\<lambda>s s'. window_projection s ob wp = (None, s')) ss (snd (render_shapes ss ob wp))"
  by (induction ss) (auto split: prod.splits option.splits)

text \<open>
  Claim C10. \<^verbatim>\<open>render\<close> changes nothing of the engine but its shapes, and nothing of a shape
  but \<^verbatim>\<open>verts_proj\<close>: observer, plane origin, canvas, and the vertices and edges of every
  shape are as before, also when a fault ends the rendering; when there is none, every
  \<^verbatim>\<open>verts_proj\<close> is the one \<^verbatim>\<open>window_projection\<close> computes from the shape.
\<close>

theorem render_changes_verts_proj_only:
  "(snd (render e))\<lparr>shapes := shapes e\<rparr> = e
   \<and> map (\<lambda>s. s\<lparr>verts_proj := []\<rparr>) (shapes (snd (render e))) = map (\<lambda>s. s\<lparr>verts_proj := []\<rparr>) (shapes e)
   \<and> map verts (shapes (snd (render e))) = map verts (shapes e)
   \<and> map edges (shapes (snd (render e))) = map edges (shapes e)
   \<and> (fst (render e) = None \<longrightarrow>
        list_all2 (\<lambda>s s'. window_projection s (obs e) (window_pos e) = (None, s'))
          (shapes e) (shapes (snd (render e))))"
proof -
  let ?ss = "snd (render_shapes (shapes e) (obs e) (window_pos e))"
  have r: "render e = (fst (render_shapes (shapes e) (obs e) (window_pos e)), e\<lparr>shapes := ?ss\<rparr>)"
    by (simp add: render_def split: prod.splits)
  have f: "map (\<lambda>s. s\<lparr>verts_proj := []\<rparr>) ?ss = map (\<lambda>s. s\<lparr>verts_proj := []\<rparr>) (shapes e)"
    by (rule render_shapes_frame)
  have "map verts (map (\<lambda>s. s\<lparr>verts_proj := []\<rparr>) ?ss) = map verts (map (\<lambda>s. s\<lparr>verts_proj := []\<rparr>) (shapes e))"
    and "map edges (map (\<lambda>s. s\<lparr>verts_proj := []\<rparr>) ?ss) = map edges (map (\<lambda>s. s\<lparr>verts_proj := []\<rparr>) (shapes e))"
    by (simp_all only: f)
  then have ve: "map verts ?ss = map verts (shapes e)" "map edges ?ss = map edges (shapes e)"
    by (simp_all add: comp_def)
  show ?thesis
    using f ve render_shapes_fresh [of "shapes e" "obs e" "window_pos e"]
    by (simp add: r)
qed

lemma demo_scene_render:
  "render demo_scene = (None, demo_scene\<lparr>shapes := [\<lparr>verts = [[1, 0, 1], [0, 2, 3]], edges = [[0, 1]], verts_proj = [[1/2, 0], [0, 1/2]]\<rparr>]\<rparr>)"
  by (simp add: demo_scene_def demo_engine_def Engine_def add_shape_def render_def
      projection_eval)

theorem render_changes_verts_proj_only_witness:
  "fst (render demo_scene) = None
   \<and> obs (snd (render demo_scene)) = [0, 0, -1]
   \<and> map verts (shapes (snd (render demo_scene))) = [[[1, 0, 1], [0, 2, 3]]]
   \<and> map verts_proj (shapes (snd (render demo_scene))) = [[[1/2, 0], [0, 1/2]]]
   \<and> list_all2 (\<lambda>s s'. window_projection s (obs demo_scene) (window_pos demo_scene) = (None, s'))
        (shapes demo_scene) (shapes (snd (render demo_scene)))"
proof -
  have ok: "fst (render demo_scene) = None" by (simp add: demo_scene_render)
  have vs: "map verts (shapes demo_scene) = [[[1, 0, 1], [0, 2, 3]]]"
    by (simp add: demo_scene_def demo_engine_def Engine_def add_shape_def)
  have ob: "obs demo_scene = [0, 0, -1]"
    by (simp add: demo_scene_def demo_engine_def Engine_def add_shape_def)
  show ?thesis
    using render_changes_verts_proj_only [of demo_scene] ok vs ob
    by (simp add: demo_scene_render)
qed

section \<open>Moving the observer\<close>

lemma zip_update_beyond: "length xs \<le> i \<Longrightarrow> zip xs (ys[i := y]) = zip xs ys"
proof (induction xs arbitrary: ys i)
  case Nil
  show ?case by simp
next
  case (Cons x xs)
  then show ?case by (cases ys; cases i) simp_all
qed

lemma map2_minus_update:
  fixes ws os :: vec
  assumes "i < length ws" and "i < length os"
  shows "map2 (-) (ws[i := ws ! i + x]) (os[i := os ! i + x]) = map2 (-) ws os"
proof -
  have "map2 (-) (ws[i := ws ! i + x]) (os[i := os ! i + x])
      = (map2 (-) ws os)[i := ws ! i - os ! i]"
    by (simp add: zip_update map_update)
  also have "\<dots> = map2 (-) ws os"
    using assms by (simp add: list_update_same_conv)
  finally show ?thesis .
qed

lemma move_obs_from_flag:
  "obs_is_window_pos (snd (move_obs_from i vect e)) = obs_is_window_pos e"
proof (induction vect arbitrary: i e)
  case Nil
  show ?case by simp
next
  case (Cons x vect)
  show ?case
    by (cases "getitem (obs e) (int i)"; cases "getitem (window_pos e) (int i)")
      (simp_all add: Cons.IH)
qed

lemma move_obs_from_offset:
  assumes "\<not> obs_is_window_pos e"
    and "list_all is_double (map2 (+) (drop i (obs e)) vect)"
    and "list_all is_double (map2 (+) (drop i (window_pos e)) vect)"
  shows "offset (snd (move_obs_from i vect e)) = offset e"
  using assms
proof (induction vect arbitrary: i e)
  case Nil
  show ?case by simp
next
  case (Cons x vect)
  note nf = Cons.prems(1)
  show ?case
  proof (cases "getitem (obs e) (int i)")
    case (Inl err)
    then show ?thesis by simp
  next
    case ob: (Inr ov)
    then have io: "i < length (obs e)" and ov: "ov = obs e ! i"
      by (simp_all add: getitem_nat_Inr)
    show ?thesis
    proof (cases "getitem (window_pos e) (int i)")
      case (Inl err)
      then have "length (window_pos e) \<le> i" by (simp add: getitem_nat_Inl)
      then show ?thesis using ob Inl nf by (simp add: offset_def zip_update_beyond)
    next
      case (Inr wv)
      then have iw: "i < length (window_pos e)" and wv: "wv = window_pos e ! i"
        by (simp_all add: getitem_nat_Inr)
      have d_o: "drop i (obs e) = obs e ! i # drop (Suc i) (obs e)"
        using io by (simp add: Cons_nth_drop_Suc)
      have dw: "drop i (window_pos e) = window_pos e ! i # drop (Suc i) (window_pos e)"
        using iw by (simp add: Cons_nth_drop_Suc)
      have ho: "is_double (obs e ! i + x)"
        and ro: "list_all is_double (map2 (+) (drop (Suc i) (obs e)) vect)"
        using Cons.prems(2) by (simp_all add: d_o)
      have hw: "is_double (window_pos e ! i + x)"
        and rw: "list_all is_double (map2 (+) (drop (Suc i) (window_pos e)) vect)"
        using Cons.prems(3) by (simp_all add: dw)
      have so: "fadd ov x = ov + x" using ho by (simp add: ov fadd_def is_double_def)
      have sw: "fadd wv x = wv + x" using hw by (simp add: wv fadd_def is_double_def)
      let ?e' = "e\<lparr>obs := (obs e)[i := ov + x], window_pos := (window_pos e)[i := wv + x]\<rparr>"
      have keep: "offset ?e' = offset e"
        using map2_minus_update [OF iw io, of x] by (simp add: offset_def ov wv)
      have "offset (snd (move_obs_from (Suc i) vect ?e')) = offset ?e'"
        using nf ro rw by (intro Cons.IH) simp_all
      then show ?thesis using ob Inr nf keep by (simp add: so sw)
    qed
  qed
qed

lemma move_obs_offset:
  assumes "\<not> obs_is_window_pos e" and "exact_move e d"
  shows "offset (snd (move_obs e d)) = offset e"
  using assms by (simp add: move_obs_def exact_move_def move_obs_from_offset)

lemma move_obs_three:
  assumes "\<not> obs_is_window_pos e" and "obs e = [ox, oy, oz]" and "window_pos e = [wx, wy, wz]"
  shows "move_obs e [dx, dy, dz] =
    (None, e\<lparr>obs := [fadd ox dx, fadd oy dy, fadd oz dz],
              window_pos := [fadd wx dx, fadd wy dy, fadd wz dz]\<rparr>)"
  using assms by (simp add: move_obs_def getitem_def)

section \<open>Drawing\<close>

lemma getitem_resolve:
  "getitem xs i = (if index_ok (length xs) i then Inr (resolve xs i) else Inl IndexError)"
  by (auto simp: getitem_def index_ok_def resolve_def)

lemma getitem_two:
  "2 \<le> length xs \<Longrightarrow> getitem xs 0 = Inr (xs ! 0) \<and> getitem xs 1 = Inr (xs ! 1)"
  by (auto simp: getitem_def)

lemma resolve_in_set: "index_ok (length xs) i \<Longrightarrow> resolve xs i \<in> set xs"
  by (auto simp: index_ok_def resolve_def intro!: nth_mem)

lemma edge_line_eval:
  assumes "2 \<le> length edge" and "2 \<le> length cs"
    and "list_all (\<lambda>p. 2 \<le> length p) (verts_proj s)"
  shows "edge_line s edge cs = (if edge_ok s edge then Inr (segment cs s edge) else Inl IndexError)"
proof (cases "edge_ok s edge")
  case False
  then show ?thesis
    using getitem_two [OF assms(1)] getitem_two [OF assms(2)]
    by (auto simp: edge_line_def edge_ok_def getitem_resolve [of "verts_proj s"])
next
  case True
  then have a: "2 \<le> length (resolve (verts_proj s) (edge ! 0))"
    and b: "2 \<le> length (resolve (verts_proj s) (edge ! 1))"
    using assms(3) resolve_in_set [of "verts_proj s"]
    by (auto simp: edge_ok_def list_all_iff)
  show ?thesis
    using True getitem_two [OF assms(1)] getitem_two [OF assms(2)] getitem_two [OF a] getitem_two [OF b]
    by (simp add: edge_line_def edge_ok_def getitem_resolve [of "verts_proj s"] segment_def to_pixel_def)
qed

lemma draw_edge_frame:
  "(snd (draw_edge s edge e))\<lparr>canvas := canvas e, canvas_id := canvas_id e\<rparr> = e"
  by (simp add: draw_edge_def create_line_def split: sum.splits)

lemma draw_edges_frame:
  "(snd (draw_edges s es e))\<lparr>canvas := canvas e, canvas_id := canvas_id e\<rparr> = e"
proof (induction es arbitrary: e)
  case Nil
  show ?case by simp
next
  case (Cons edge es)
  obtain r e1 where d: "draw_edge s edge e = (r, e1)" by (cases "draw_edge s edge e")
  have f1: "e1\<lparr>canvas := canvas e, canvas_id := canvas_id e\<rparr> = e"
    using draw_edge_frame [where s = s and edge = edge and e = e] d by simp
  show ?case
  proof (cases r)
    case (Some err)
    then show ?thesis using d f1 by simp
  next
    case None
    let ?e2 = "snd (draw_edges s es e1)"
    have "?e2\<lparr>canvas := canvas e1, canvas_id := canvas_id e1\<rparr> = e1" by (rule Cons.IH)
    then have "(?e2\<lparr>canvas := canvas e1, canvas_id := canvas_id e1\<rparr>)\<lparr>canvas := canvas e, canvas_id := canvas_id e\<rparr> = e"
      using f1 by simp
    then show ?thesis using d None by simp
  qed
qed

lemma draw_shapes_frame:
  "(snd (draw_shapes ss e))\<lparr>canvas := canvas e, canvas_id := canvas_id e\<rparr> = e"
proof (induction ss arbitrary: e)
  case Nil
  show ?case by simp
next
  case (Cons s ss)
  obtain r e1 where d: "draw_edges s (edges s) e = (r, e1)" by (cases "draw_edges s (edges s) e")
  have f1: "e1\<lparr>canvas := canvas e, canvas_id := canvas_id e\<rparr> = e"
    using draw_edges_frame [where s = s and es = "edges s" and e = e] d by simp
  show ?case
  proof (cases r)
    case (Some err)
    then show ?thesis using d f1 by simp
  next
    case None
    let ?e2 = "snd (draw_shapes ss e1)"
    have "?e2\<lparr>canvas := canvas e1, canvas_id := canvas_id e1\<rparr> = e1" by (rule Cons.IH)
    then have "(?e2\<lparr>canvas := canvas e1, canvas_id := canvas_id e1\<rparr>)\<lparr>canvas := canvas e, canvas_id := canvas_id e\<rparr> = e"
      using f1 by simp
    then show ?thesis using d None by simp
  qed
qed

lemma draw_frame:
  "(snd (draw e))\<lparr>canvas := canvas e, canvas_id := canvas_id e\<rparr> = e"
proof -
  let ?e0 = "e\<lparr>canvas := fold delete_item (canvas_id e) (canvas e), canvas_id := []\<rparr>"
  let ?e2 = "snd (draw_shapes (shapes e) ?e0)"
  have "?e2\<lparr>canvas := canvas ?e0, canvas_id := canvas_id ?e0\<rparr> = ?e0"
    by (rule draw_shapes_frame)
  then have "(?e2\<lparr>canvas := canvas ?e0, canvas_id := canvas_id ?e0\<rparr>)\<lparr>canvas := canvas e, canvas_id := canvas_id e\<rparr>
      = ?e0\<lparr>canvas := canvas e, canvas_id := canvas_id e\<rparr>"
    by (rule arg_cong)
  then show ?thesis by (simp add: draw_def)
qed

lemma draw_edge_eval:
  assumes "2 \<le> length edge" and "2 \<le> length (canvas_shape e)"
    and "list_all (\<lambda>p. 2 \<le> length p) (verts_proj s)"
  shows "draw_edge s edge e =
     (if edge_ok s edge
      then (None, e\<lparr>canvas := (canvas e)\<lparr>items := items (canvas e) @ [(next_id (canvas e), segment (canvas_shape e) s edge)],
                                         next_id := Suc (next_id (canvas e))\<rparr>,
                    canvas_id := canvas_id e @ [next_id (canvas e)]\<rparr>)
      else (Some IndexError, e))"
  by (simp add: draw_edge_def edge_line_eval [OF assms] create_line_def)

lemma draw_edges_eval:
  assumes "list_all (\<lambda>edge. 2 \<le> length edge) es" and "2 \<le> length (canvas_shape e)"
    and "list_all (\<lambda>p. 2 \<le> length p) (verts_proj s)"
  shows "fst (draw_edges s es e) = (if list_all (edge_ok s) es then None else Some IndexError)
    \<and> (list_all (edge_ok s) es \<longrightarrow>
         map snd (items (canvas (snd (draw_edges s es e))))
           = map snd (items (canvas e)) @ map (segment (canvas_shape e) s) es)"
  using assms(1,2)
proof (induction es arbitrary: e)
  case Nil
  show ?case by simp
next
  case (Cons edge es)
  have wf: "2 \<le> length edge" "list_all (\<lambda>edge. 2 \<le> length edge) es"
    using Cons.prems(1) by simp_all
  note ev = draw_edge_eval [OF wf(1) Cons.prems(2) assms(3)]
  show ?case
  proof (cases "edge_ok s edge")
    case False
    then show ?thesis by (simp add: ev)
  next
    case True
    let ?e1 = "e\<lparr>canvas := (canvas e)\<lparr>items := items (canvas e) @ [(next_id (canvas e), segment (canvas_shape e) s edge)],
                                         next_id := Suc (next_id (canvas e))\<rparr>,
                    canvas_id := canvas_id e @ [next_id (canvas e)]\<rparr>"
    have cs: "2 \<le> length (canvas_shape ?e1)" using Cons.prems(2) by simp
    show ?thesis
      using True Cons.IH [OF wf(2) cs] by (simp add: ev)
  qed
qed

lemma draw_shapes_eval:
  assumes "list_all well_formed ss" and "2 \<le> length (canvas_shape e)"
  shows "fst (draw_shapes ss e) =
           (if list_all (\<lambda>s. list_all (edge_ok s) (edges s)) ss then None else Some IndexError)
    \<and> (list_all (\<lambda>s. list_all (edge_ok s) (edges s)) ss \<longrightarrow>
         map snd (items (canvas (snd (draw_shapes ss e))))
           = map snd (items (canvas e)) @ concat (map (\<lambda>s. map (segment (canvas_shape e) s) (edges s)) ss))"
  using assms
proof (induction ss arbitrary: e)
  case Nil
  show ?case by simp
next
  case (Cons s ss)
  have wf: "list_all (\<lambda>edge. 2 \<le> length edge) (edges s)" "list_all (\<lambda>p. 2 \<le> length p) (verts_proj s)"
    "list_all well_formed ss"
    using Cons.prems(1) by (simp_all add: well_formed_def [of s])
  note ev = draw_edges_eval [OF wf(1) Cons.prems(2) wf(2)]
  obtain r e1 where d: "draw_edges s (edges s) e = (r, e1)" by (cases "draw_edges s (edges s) e")
  have "e1\<lparr>canvas := canvas e, canvas_id := canvas_id e\<rparr> = e"
    using draw_edges_frame [where s = s and es = "edges s" and e = e] d by simp
  then have "canvas_shape (e1\<lparr>canvas := canvas e, canvas_id := canvas_id e\<rparr>) = canvas_shape e"
    by (rule arg_cong)
  then have cs: "canvas_shape e1 = canvas_shape e" by simp
  show ?case
  proof (cases "list_all (edge_ok s) (edges s)")
    case False
    then show ?thesis using ev d by simp
  next
    case True
    then have r: "r = None" using ev d by simp
    have it: "map snd (items (canvas e1)) = map snd (items (canvas e)) @ map (segment (canvas_shape e) s) (edges s)"
      using ev True d by simp
    have cs1: "2 \<le> length (canvas_shape e1)" using cs Cons.prems(2) by simp
    show ?thesis
      using True Cons.IH [OF wf(3) cs1] by (simp add: d r it cs)
  qed
qed

text \<open>
  Claim C6. \<^verbatim>\<open>draw\<close> submits, after what is left of the canvas once the lines of the
  previous call are deleted, one segment per edge of every shape, in order, and the ends of
  a segment are the pixels of the two projected points:
  \<open>pixel = projected * 200 + (w / 2, h / 2)\<close> for the viewport size \<open>(w, h)\<close>, that is a
  translation by \<open>(300, 250)\<close> on a 600 by 500 viewport.
\<close>

theorem draw_pixel_conversion:
  assumes "list_all well_formed (shapes e)" and "canvas_shape e = [w, h]" and "fst (draw e) = None"
  shows "map snd (items (canvas (snd (draw e))))
           = map snd (items (fold delete_item (canvas_id e) (canvas e)))
             @ concat (map (\<lambda>s. map (segment [w, h] s) (edges s)) (shapes e))
       \<and> to_pixel [w, h] [x, y] = (x * 200 + real_of_int w / 2, y * 200 + real_of_int h / 2)
       \<and> to_pixel [600, 500] [x, y] = (x * 200 + 300, y * 200 + 250)"
proof -
  let ?e0 = "e\<lparr>canvas := fold delete_item (canvas_id e) (canvas e), canvas_id := []\<rparr>"
  have cs: "2 \<le> length (canvas_shape ?e0)" using assms(2) by simp
  note ev = draw_shapes_eval [OF assms(1) cs]
  have ok: "list_all (\<lambda>s. list_all (edge_ok s) (edges s)) (shapes e)"
    using ev assms(3) by (auto simp: draw_def split: if_splits)
  have "map snd (items (canvas (snd (draw e))))
           = map snd (items (fold delete_item (canvas_id e) (canvas e)))
             @ concat (map (\<lambda>s. map (segment [w, h] s) (edges s)) (shapes e))"
    using ev ok assms(2) by (simp add: draw_def)
  then show ?thesis by (simp add: to_pixel_def)
qed

lemma drawn_scene_draw:
  "draw drawn_scene =
     (None, drawn_scene\<lparr>canvas := demo_canvas\<lparr>items := [(1, (400, 250, 300, 350))], next_id := 2\<rparr>,
                       canvas_id := [1]\<rparr>)"
  by (simp add: drawn_scene_def demo_engine_def demo_canvas_def Engine_def add_shape_def draw_def
      draw_edge_def edge_line_def create_line_def getitem_def)

theorem draw_pixel_conversion_witness:
  "list_all well_formed (shapes drawn_scene) \<and> canvas_shape drawn_scene = [600, 500]
   \<and> fst (draw drawn_scene) = None
   \<and> map snd (items (canvas (snd (draw drawn_scene)))) = [(400, 250, 300, 350)]"
proof -
  have wf: "list_all well_formed (shapes drawn_scene)"
    by (simp add: drawn_scene_def demo_engine_def Engine_def add_shape_def well_formed_def)
  have cs: "canvas_shape drawn_scene = [600, 500]"
    by (simp add: drawn_scene_def)
  have ok: "fst (draw drawn_scene) = None"
    by (simp add: drawn_scene_draw)
  show ?thesis
    using draw_pixel_conversion [OF wf cs ok] wf cs ok
    by (simp add: drawn_scene_draw)
qed

text \<open>
  Claim C8, as amended. With \<open>n\<close> projected points, \<^verbatim>\<open>draw\<close> stops with an
  \<^verbatim>\<open>IndexError\<close> exactly when some edge of some shape has an end \<open>i\<close> with \<open>i < -n\<close> or
  \<open>n \<le> i\<close>; an end with \<open>-n \<le> i < 0\<close> is no fault: it denotes the projected point \<open>n + i\<close>.
  When every end has \<open>-n \<le> i < n\<close> every lookup succeeds.
\<close>

theorem draw_index_faults:
  assumes "list_all well_formed (shapes e)" and "2 \<le> length (canvas_shape e)"
  shows "fst (draw e) =
           (if list_all (\<lambda>s. list_all (edge_ok s) (edges s)) (shapes e) then None else Some IndexError)
       \<and> (getitem xs i = Inl IndexError \<longleftrightarrow> i < - int (length xs) \<or> int (length xs) \<le> i)
       \<and> (- int (length xs) \<le> i \<and> i < 0 \<longrightarrow> getitem xs i = Inr (xs ! nat (int (length xs) + i)))"
proof -
  let ?e0 = "e\<lparr>canvas := fold delete_item (canvas_id e) (canvas e), canvas_id := []\<rparr>"
  have cs: "2 \<le> length (canvas_shape ?e0)" using assms(2) by simp
  have "fst (draw e) =
           (if list_all (\<lambda>s. list_all (edge_ok s) (edges s)) (shapes e) then None else Some IndexError)"
    using draw_shapes_eval [OF assms(1) cs] by (simp add: draw_def)
  then show ?thesis by (auto simp: getitem_def)
qed

theorem draw_index_faults_witness:
  "list_all well_formed (shapes broken_scene) \<and> 2 \<le> length (canvas_shape broken_scene)
   \<and> fst (draw broken_scene) = Some IndexError
   \<and> getitem [10, 20 :: int] 2 = Inl IndexError
   \<and> getitem [10, 20 :: int] (-1) = Inr 20"
proof -
  have wf: "list_all well_formed (shapes broken_scene)"
    by (simp add: broken_scene_def demo_engine_def Engine_def add_shape_def well_formed_def)
  have cs: "2 \<le> length (canvas_shape broken_scene)"
    by (simp add: broken_scene_def demo_engine_def Engine_def add_shape_def)
  have bad: "\<not> list_all (\<lambda>s. list_all (edge_ok s) (edges s)) (shapes broken_scene)"
    by (simp add: broken_scene_def demo_engine_def Engine_def add_shape_def edge_ok_def index_ok_def)
  show ?thesis
    using draw_index_faults [OF wf cs, of "[10, 20 :: int]" "2"]
      draw_index_faults [OF wf cs, of "[10, 20 :: int]" "-1"] wf cs bad
    by simp
qed

text \<open>
  The claim as the specification words it counts every negative index as out of range. The
  edge \<open>[0, -1]\<close> of a shape with two projected points is drawn, from point 0 to point 1.
\<close>

theorem draw_index_faults_counterexample:
  "map edges (shapes wrapped_scene) = [[[0, -1]]]
   \<and> map verts_proj (shapes wrapped_scene) = [[[1/2, 0], [0, 1/2]]]
   \<and> draw wrapped_scene =
     (None, wrapped_scene\<lparr>canvas := demo_canvas\<lparr>items := [(1, (100, 0, 0, 100))], next_id := 2\<rparr>,
                         canvas_id := [1]\<rparr>)"
  by (simp add: wrapped_scene_def demo_engine_def demo_canvas_def Engine_def add_shape_def draw_def
      draw_edge_def edge_line_def create_line_def getitem_def)

section \<open>The tick and sequences of operations\<close>

lemma render_fields:
  "obs (snd (render e)) = obs e" "window_pos (snd (render e)) = window_pos e"
  "canvas_shape (snd (render e)) = canvas_shape e" "canvas (snd (render e)) = canvas e"
  by (simp_all add: render_def split: prod.splits)

lemma draw_fields:
  "obs (snd (draw e)) = obs e" "window_pos (snd (draw e)) = window_pos e"
  "canvas_shape (snd (draw e)) = canvas_shape e"
proof -
  let ?e' = "(snd (draw e))\<lparr>canvas := canvas e, canvas_id := canvas_id e\<rparr>"
  have "obs ?e' = obs e" "window_pos ?e' = window_pos e" "canvas_shape ?e' = canvas_shape e"
    by (simp_all only: draw_frame)
  then show "obs (snd (draw e)) = obs e" "window_pos (snd (draw e)) = window_pos e"
    "canvas_shape (snd (draw e)) = canvas_shape e"
    by simp_all
qed

lemma update_in_order:
  "update e func = in_order [run_callback func, refresh_viewport, render, draw, reschedule] e"
  by (simp add: update_def run_callback_def refresh_viewport_def reschedule_def
      split: prod.splits option.splits)

lemma update_canvas_shape:
  "canvas_shape (snd (update e func)) =
     (if fst (run_callback func e) = None
      then [winfo_width (canvas (snd (run_callback func e))), winfo_height (canvas (snd (run_callback func e)))]
      else canvas_shape (snd (run_callback func e)))"
proof -
  obtain r e1 where cb: "run_callback func e = (r, e1)" by (cases "run_callback func e")
  let ?e2 = "e1\<lparr>canvas_shape := [winfo_width (canvas e1), winfo_height (canvas e1)]\<rparr>"
  have r: "canvas_shape (snd (render ?e2)) = [winfo_width (canvas e1), winfo_height (canvas e1)]"
    by (simp add: render_fields)
  have d: "canvas_shape (snd (draw (snd (render ?e2)))) = [winfo_width (canvas e1), winfo_height (canvas e1)]"
    by (simp add: draw_fields r)
  show ?thesis
    using cb r d
    by (auto simp: update_def run_callback_def split: prod.splits option.splits)
qed

lemma update_offset:
  assumes "offset (snd (run_callback func e)) = offset e"
  shows "offset (snd (update e func)) = offset e"
proof -
  obtain r e1 where cb: "run_callback func e = (r, e1)" by (cases "run_callback func e")
  then have o1: "offset e1 = offset e" using assms by simp
  let ?e2 = "e1\<lparr>canvas_shape := [winfo_width (canvas e1), winfo_height (canvas e1)]\<rparr>"
  have r: "offset (snd (render ?e2)) = offset e"
    using o1 by (simp add: offset_def render_fields)
  have d: "offset (snd (draw (snd (render ?e2)))) = offset e"
    using r by (simp add: offset_def draw_fields)
  show ?thesis
    using cb o1 r d
    by (auto simp: update_def run_callback_def offset_def split: prod.splits option.splits)
qed

lemma render_flag: "obs_is_window_pos (snd (render e)) = obs_is_window_pos e"
  by (simp add: render_def split: prod.splits)

lemma draw_flag: "obs_is_window_pos (snd (draw e)) = obs_is_window_pos e"
proof -
  have "obs_is_window_pos ((snd (draw e))\<lparr>canvas := canvas e, canvas_id := canvas_id e\<rparr>)
      = obs_is_window_pos e"
    by (simp only: draw_frame)
  then show ?thesis by simp
qed

lemma update_flag:
  assumes "obs_is_window_pos (snd (run_callback func e)) = obs_is_window_pos e"
  shows "obs_is_window_pos (snd (update e func)) = obs_is_window_pos e"
proof -
  obtain r e1 where cb: "run_callback func e = (r, e1)" by (cases "run_callback func e")
  then have o1: "obs_is_window_pos e1 = obs_is_window_pos e" using assms by simp
  let ?e2 = "e1\<lparr>canvas_shape := [winfo_width (canvas e1), winfo_height (canvas e1)]\<rparr>"
  have r: "obs_is_window_pos (snd (render ?e2)) = obs_is_window_pos e"
    using o1 by (simp add: render_flag)
  have d: "obs_is_window_pos (snd (draw (snd (render ?e2)))) = obs_is_window_pos e"
    using r by (simp add: draw_flag)
  show ?thesis
    using cb o1 r d
    by (auto simp: update_def run_callback_def split: prod.splits option.splits)
qed

lemma do_call_flag: "obs_is_window_pos (snd (do_call c e)) = obs_is_window_pos e"
  by (cases c) (simp_all add: move_obs_def move_obs_from_flag add_shape_def)

lemma do_calls_flag: "obs_is_window_pos (snd (do_calls cs e)) = obs_is_window_pos e"
proof (induction cs arbitrary: e)
  case Nil
  show ?case by simp
next
  case (Cons c cs)
  obtain r e1 where d: "do_call c e = (r, e1)" by (cases "do_call c e")
  then have "obs_is_window_pos e1 = obs_is_window_pos e" using do_call_flag [of c e] by simp
  then show ?case using d Cons.IH [of e1] by (cases r) simp_all
qed

lemma perform_flag: "obs_is_window_pos (snd (perform a e)) = obs_is_window_pos e"
proof (cases a)
  case (Init c)
  then show ?thesis by (cases c) (simp_all add: init_def draw_flag)
next
  case (Call c)
  then show ?thesis by (simp add: do_call_flag)
next
  case Render
  then show ?thesis by (simp add: render_flag)
next
  case Draw
  then show ?thesis by (simp add: draw_flag)
next
  case (Tick cb)
  have "obs_is_window_pos (snd (run_callback (map_option do_calls cb) e)) = obs_is_window_pos e"
    by (cases cb) (simp_all add: run_callback_def do_calls_flag)
  then show ?thesis using Tick by (simp add: update_flag)
qed

lemma do_call_offset:
  assumes "\<not> obs_is_window_pos e" and "exact_call c e"
  shows "offset (snd (do_call c e)) = offset e"
  using assms by (cases c) (simp_all add: move_obs_offset, simp_all add: offset_def add_shape_def)

lemma do_calls_offset:
  assumes "\<not> obs_is_window_pos e" and "exact_calls cs e"
  shows "offset (snd (do_calls cs e)) = offset e"
  using assms
proof (induction cs arbitrary: e)
  case Nil
  show ?case by simp
next
  case (Cons c cs)
  obtain r e1 where d: "do_call c e = (r, e1)" by (cases "do_call c e")
  have o1: "offset e1 = offset e"
    using do_call_offset [of e c] Cons.prems d by simp
  have f1: "\<not> obs_is_window_pos e1"
    using do_call_flag [of c e] Cons.prems(1) d by simp
  show ?case
  proof (cases r)
    case None
    then have "exact_calls cs e1" using Cons.prems(2) d by simp
    then show ?thesis using Cons.IH [OF f1] d None o1 by simp
  next
    case (Some err)
    then show ?thesis using d o1 by simp
  qed
qed

lemma perform_offset:
  assumes "\<not> obs_is_window_pos e" and "exact_operation a e"
  shows "offset (snd (perform a e)) = offset e"
proof (cases a)
  case (Init c)
  then show ?thesis by (cases c) (simp_all add: init_def offset_def draw_fields)
next
  case (Call c)
  then show ?thesis using assms by (simp add: do_call_offset)
next
  case Render
  then show ?thesis by (simp add: offset_def render_fields)
next
  case Draw
  then show ?thesis by (simp add: offset_def draw_fields)
next
  case (Tick cb)
  have "offset (snd (run_callback (map_option do_calls cb) e)) = offset e"
    using assms Tick by (cases cb) (simp_all add: run_callback_def do_calls_offset)
  then show ?thesis using Tick by (simp add: update_offset)
qed

lemma run_offset:
  assumes "\<not> obs_is_window_pos e" and "exact_run ops e"
  shows "offset (run ops e) = offset e"
  using assms
proof (induction ops arbitrary: e)
  case Nil
  show ?case by simp
next
  case (Cons a ops)
  have f: "\<not> obs_is_window_pos (snd (perform a e))"
    using perform_flag [of a e] Cons.prems(1) by simp
  have "offset (run ops (snd (perform a e))) = offset (snd (perform a e))"
    using Cons.prems(2) by (intro Cons.IH [OF f]) simp
  then show ?case using perform_offset [of e a] Cons.prems by simp
qed

text \<open>
  Claim C5, as amended. On an engine whose observer and plane origin are two lists of
  three components, \<^verbatim>\<open>move_obs\<close> with a vector of three components adds it, component by
  component and in the arithmetic of doubles, to the observer and to the plane origin.
  When the two are two lists and these sums are exact, the offset of the plane origin from
  the observer is the same after \<^verbatim>\<open>move_obs\<close> as before, and it is the same after every
  sequence of operations of the engine whose moves are exact (initialisation, moves, added
  shapes, vertices replaced, renderings, drawings, ticks whose callback moves, adds or
  replaces).
\<close>

theorem move_obs_keeps_offset:
  "(\<not> obs_is_window_pos e \<and> obs e = [ox, oy, oz] \<and> window_pos e = [wx, wy, wz] \<longrightarrow>
      move_obs e [dx, dy, dz] =
        (None, e\<lparr>obs := [fadd ox dx, fadd oy dy, fadd oz dz],
                  window_pos := [fadd wx dx, fadd wy dy, fadd wz dz]\<rparr>))
   \<and> (\<not> obs_is_window_pos e \<and> exact_move e d \<longrightarrow> offset (snd (move_obs e d)) = offset e)
   \<and> (\<not> obs_is_window_pos e \<and> exact_run ops e \<longrightarrow> offset (run ops e) = offset e)"
  by (simp add: move_obs_three move_obs_offset run_offset)

theorem move_obs_keeps_offset_witness:
  "\<not> obs_is_window_pos demo_engine
   \<and> obs demo_engine = [0, 0, -1] \<and> window_pos demo_engine = [-1/2, -1/2, 0]
   \<and> exact_move demo_engine [0, 0, -1/16]
   \<and> exact_run [Call (MoveObs [0, 0, -1/16]), Tick (Some [MoveObs [0, 1/16, 0]]), Render, Draw] demo_engine
   \<and> move_obs demo_engine [0, 0, -1/16] =
        (None, demo_engine\<lparr>obs := [0, 0, -17/16], window_pos := [-1/2, -1/2, -1/16]\<rparr>)
   \<and> offset demo_engine = [-1/2, -1/2, 1]
   \<and> offset (snd (move_obs demo_engine [0, 0, -1/16])) = [-1/2, -1/2, 1]
   \<and> offset (run [Call (MoveObs [0, 0, -1/16]), Tick (Some [MoveObs [0, 1/16, 0]]), Render, Draw] demo_engine)
        = [-1/2, -1/2, 1]"
proof -
  have f: "\<not> obs_is_window_pos demo_engine"
    and o: "obs demo_engine = [0, 0, -1]" and w: "window_pos demo_engine = [-1/2, -1/2, 0]"
    by (simp_all add: engine_eval)
  have off: "offset demo_engine = [-1/2, -1/2, 1]"
    by (simp add: offset_def o w)
  have em: "exact_move demo_engine [0, 0, -1/16]"
    by (simp add: exact_move_def o w double_eval)
  have m: "move_obs demo_engine [0, 0, -1/16] =
        (None, demo_engine\<lparr>obs := [0, 0, -17/16], window_pos := [-1/2, -1/2, -1/16]\<rparr>)"
    using move_obs_three [OF f o w, of 0 0 "-1/16"] by (simp add: double_eval)
  have er: "exact_run [Call (MoveObs [0, 0, -1/16]), Tick (Some [MoveObs [0, 1/16, 0]]), Render, Draw] demo_engine"
    using m o w by (simp add: exact_move_def double_eval split: prod.splits option.splits)
  note inst = move_obs_keeps_offset [of demo_engine 0 0 "-1" "-1/2" "-1/2" 0 0 0 "-1/16" "[0, 0, -1/16]"
        "[Call (MoveObs [0, 0, -1/16]), Tick (Some [MoveObs [0, 1/16, 0]]), Render, Draw]"]
  have a: "offset (snd (move_obs demo_engine [0, 0, -1/16])) = offset demo_engine"
    using inst f em by blast
  have b: "offset (run [Call (MoveObs [0, 0, -1/16]), Tick (Some [MoveObs [0, 1/16, 0]]), Render, Draw] demo_engine)
        = offset demo_engine"
    using inst f er by blast
  show ?thesis
    using f o w em er m off a [unfolded off] b [unfolded off] by blast
qed

text \<open>
  The claim as the specification words it holds for every vector and every engine. One
  call with \<open>0.2\<close> on an observer at depth \<open>0.1\<close> and a plane at depth \<open>0.7\<close> changes their
  difference (in doubles from \<open>0.6\<close> to \<open>0.5999999999999999\<close>), since the two sums round
  apart; the four first moves of the demo, by \<open>-0.05\<close>, change it too. On an engine built on
  one list for both, \<^verbatim>\<open>move_obs\<close> adds the vector twice.
\<close>

theorem move_obs_keeps_offset_counterexample:
  "\<not> obs_is_window_pos drifting_engine
   \<and> list_all is_double (obs drifting_engine @ window_pos drifting_engine @ [0, 0, rnd (2/10)])
   \<and> offset drifting_engine = [-1/2, -1/2, 21617278211378379 / 36028797018963968]
   \<and> offset (snd (move_obs drifting_engine [0, 0, rnd (2/10)]))
        = [-1/2, -1/2, 2702159776422297 / 4503599627370496]
   \<and> map2 fsub (window_pos drifting_engine) (obs drifting_engine) = [-1/2, -1/2, rnd (6/10)]
   \<and> map2 fsub (window_pos (snd (move_obs drifting_engine [0, 0, rnd (2/10)])))
                 (obs (snd (move_obs drifting_engine [0, 0, rnd (2/10)])))
        = [-1/2, -1/2, rnd (5999999999999999 / 10000000000000000)]
   \<and> offset demo_engine = [-1/2, -1/2, 1]
   \<and> offset (run [Call (MoveObs [0, 0, rnd (-1/20)]), Call (MoveObs [0, 0, rnd (-1/20)]),
                     Call (MoveObs [0, 0, rnd (-1/20)]), Call (MoveObs [0, 0, rnd (-1/20)])] demo_engine)
        = [-1/2, -1/2, 18014398509481987 / 18014398509481984]
   \<and> obs_is_window_pos one_list_engine
   \<and> obs one_list_engine = [0, 0, -1]
   \<and> obs (snd (move_obs one_list_engine [0, 0, 1])) = [0, 0, 1]"
proof -
  have d: "obs drifting_engine = [0, 0, rnd (1/10)]"
    "window_pos drifting_engine = [-1/2, -1/2, rnd (7/10)]" "\<not> obs_is_window_pos drifting_engine"
    by (simp_all add: drifting_engine_def engine_eval)
  have dd: "list_all is_double (obs drifting_engine @ window_pos drifting_engine @ [0, 0, rnd (2/10)])"
    by (simp add: d double_eval)
  have m: "move_obs drifting_engine [0, 0, rnd (2/10)] =
      (None, drifting_engine\<lparr>obs := [fadd 0 0, fadd 0 0, fadd (rnd (1/10)) (rnd (2/10))],
         window_pos := [fadd (-1/2) 0, fadd (-1/2) 0, fadd (rnd (7/10)) (rnd (2/10))]\<rparr>)"
    using move_obs_three [OF d(3) d(1) d(2)] by simp
  have o0: "offset drifting_engine = [-1/2, -1/2, 21617278211378379 / 36028797018963968]"
    by (simp add: offset_def d double_eval)
  have o1: "offset (snd (move_obs drifting_engine [0, 0, rnd (2/10)]))
        = [-1/2, -1/2, 2702159776422297 / 4503599627370496]"
    using m by (simp add: offset_def double_eval)
  have f0: "map2 fsub (window_pos drifting_engine) (obs drifting_engine) = [-1/2, -1/2, rnd (6/10)]"
    by (simp add: d double_eval)
  have f1: "map2 fsub (window_pos (snd (move_obs drifting_engine [0, 0, rnd (2/10)])))
                 (obs (snd (move_obs drifting_engine [0, 0, rnd (2/10)])))
        = [-1/2, -1/2, rnd (5999999999999999 / 10000000000000000)]"
    using m by (simp add: double_eval)
  have e0: "offset demo_engine = [-1/2, -1/2, 1]"
    by (simp add: offset_def engine_eval)
  have e4: "offset (run [Call (MoveObs [0, 0, rnd (-1/20)]), Call (MoveObs [0, 0, rnd (-1/20)]),
                     Call (MoveObs [0, 0, rnd (-1/20)]), Call (MoveObs [0, 0, rnd (-1/20)])] demo_engine)
        = [-1/2, -1/2, 18014398509481987 / 18014398509481984]"
    by (simp add: offset_def engine_eval move_obs_def getitem_def double_eval)
  have a: "obs_is_window_pos one_list_engine" "obs one_list_engine = [0, 0, -1]"
    by (simp_all add: one_list_engine_def engine_eval)
  have a1: "obs (snd (move_obs one_list_engine [0, 0, 1])) = [0, 0, 1]"
    by (simp add: one_list_engine_def engine_eval move_obs_def getitem_def double_eval)
  from d(3) dd o0 o1 f0 f1 e0 e4 a a1 show ?thesis by blast
qed

text \<open>
  Claim C7, as amended. A tick runs the callback first, when there is one, then refreshes
  the stored viewport size from the canvas, then projects, then draws, then asks for the
  next tick, and stops at the first fault. The viewport size used for drawing is read after
  the callback has run: it is the size of the canvas as the callback leaves it.
\<close>

theorem update_order:
  "update e func = in_order [run_callback func, refresh_viewport, render, draw, reschedule] e
   \<and> canvas_shape (snd (update e func)) =
       (if fst (run_callback func e) = None
        then [winfo_width (canvas (snd (run_callback func e))),
              winfo_height (canvas (snd (run_callback func e)))]
        else canvas_shape (snd (run_callback func e)))"
  using update_in_order update_canvas_shape by simp

text \<open>
  In the order of the claim as worded a callback that reads the stored viewport size would
  see the size of this tick; in the source it sees what the previous tick stored, \<open>[0, 0]\<close>
  on the first tick.
\<close>

theorem update_order_counterexample:
  "window_size (snd (update demo_engine (Some viewport_reader))) = [0, 0]
   \<and> window_size (snd (tick_as_specified demo_engine (Some viewport_reader))) = [600, 500]
   \<and> update demo_engine (Some viewport_reader) \<noteq> tick_as_specified demo_engine (Some viewport_reader)"
proof -
  have u: "window_size (snd (update demo_engine (Some viewport_reader))) = [0, 0]"
    by (simp add: update_def viewport_reader_def demo_engine_def demo_canvas_def Engine_def
        render_def draw_def)
  have t: "window_size (snd (tick_as_specified demo_engine (Some viewport_reader))) = [600, 500]"
    by (simp add: tick_as_specified_def refresh_viewport_def run_callback_def reschedule_def
        viewport_reader_def demo_engine_def demo_canvas_def Engine_def render_def draw_def)
  from u t show ?thesis by auto
qed

section \<open>The cube\<close>

lemma upt_8: "[0..<8] = [0, 1, 2, 3, 4, 5, 6, 7]"
  by (simp add: upt_rec)

lemma cube_edges_topology: "cube_topology unit_verts cube_edges"
  by (simp add: cube_topology_def unit_verts_def cube_edges_def differing_def joins_def upt_8)

lemma cube_edges_connected: "connected_graph 8 cube_edges"
  by (auto simp: connected_graph_def cube_edges_def grow_def upt_8 eval_nat_numeral)

lemma cube_edges_degree: "map (degree cube_edges) [0, 1, 2, 3, 4, 5, 6, 7] = [3, 3, 3, 3, 3, 3, 3, 3]"
  by (simp add: degree_def cube_edges_def)

lemma cube_edges_depth: "length (edges_at_depth unit_verts cube_edges (-1)) = 4"
  "length (edges_at_depth unit_verts cube_edges 1) = 4"
  "length (connecting_edges unit_verts cube_edges) = 4"
  by (simp_all add: edges_at_depth_def connecting_edges_def unit_verts_def cube_edges_def)

lemma Square_verts: "Square (Some [cx, cy, cz]) s =
     Inr \<lparr>verts =
            [[cx - s / 2, cy - s / 2, cz - s / 2], [cx + s / 2, cy - s / 2, cz - s / 2],
             [cx + s / 2, cy + s / 2, cz - s / 2], [cx - s / 2, cy + s / 2, cz - s / 2],
             [cx - s / 2, cy - s / 2, cz + s / 2], [cx + s / 2, cy - s / 2, cz + s / 2],
             [cx + s / 2, cy + s / 2, cz + s / 2], [cx - s / 2, cy + s / 2, cz + s / 2]],
          edges = cube_edges, verts_proj = []\<rparr>"
  by (simp add: Square_def Shape_def unit_verts_def place_vertex_def)

lemma Square_unit: "Square (Some [0, 0, 0]) 2 = Inr \<lparr>verts = unit_verts, edges = cube_edges, verts_proj = []\<rparr>"
  by (simp add: Square_verts unit_verts_def)

lemma unit_verts_corners: "distinct unit_verts"
  "set unit_verts = set (concat (map (\<lambda>x. concat (map (\<lambda>y. map (\<lambda>z. [x, y, z]) [-1, 1]) [-1, 1])) [-1, 1]))"
  by (auto simp: unit_verts_def)

lemma half_eq: "(c - h = c + h) = (h = 0)" "(c + h = c - h) = (h = 0)" for c h :: real
  by auto

lemma corners_topology: "h \<noteq> 0 \<Longrightarrow> cube_topology (corners cx cy cz h) cube_edges"
  by (simp add: corners_def cube_topology_def cube_edges_def differing_def joins_def upt_8 half_eq)

lemma corners_all:
  "set (corners cx cy cz h) =
     set (concat (map (\<lambda>x. concat (map (\<lambda>y. map (\<lambda>z. [x, y, z]) [cz - h, cz + h]) [cy - h, cy + h]))
       [cx - h, cx + h]))"
  by (auto simp: corners_def)

lemma Square_corners:
  "Square (Some [cx, cy, cz]) s = Inr \<lparr>verts = corners cx cy cz (s / 2), edges = cube_edges, verts_proj = []\<rparr>"
  by (simp add: Square_verts corners_def)



text \<open>
  Claim C2 fails on a cube at the depth of the observer. The cube of center \<open>(0, 0, 0)\<close> and
  size 2 has its front face at \<open>z = -1\<close>, the depth of the default observer \<open>(0, 0, -1)\<close>: the
  slope of its first vertex is \<open>0\<close> and \<^verbatim>\<open>1/a0\<close> divides by zero, which the guard on
  \<^verbatim>\<open>p[0] != obs[0]\<close> does not prevent.
\<close>

theorem render_cube_at_observer_depth:
  "Square (Some [0, 0, 0]) 2 = Inr \<lparr>verts = unit_verts, edges = cube_edges, verts_proj = []\<rparr>
   \<and> obs demo_engine = [0, 0, -1]
   \<and> fst (render (add_shape demo_engine \<lparr>verts = unit_verts, edges = cube_edges, verts_proj = []\<rparr>))
       = Some ZeroDivisionError"
proof -
  have "fst (render (add_shape demo_engine \<lparr>verts = unit_verts, edges = cube_edges, verts_proj = []\<rparr>))
      = Some ZeroDivisionError"
    by (simp add: demo_engine_def Engine_def add_shape_def render_def unit_verts_def
        projection_eval)
  then show ?thesis
    by (simp add: Square_unit) (simp add: demo_engine_def Engine_def)
qed

end
